theory Spec2Isabelle
  imports Main "HOL-Library.Word"
begin

unbundle bit_operations_syntax

section \<open>The LPC streams of \<^verbatim>\<open>lilcom/lpc_stream.h\<close>\<close>

text \<open>
  The header defines three classes: \<^verbatim>\<open>LpcPrediction\<close> (the prediction state shared by
  both directions), \<^verbatim>\<open>LpcStream\<close> (the encoder) and \<^verbatim>\<open>ReverseLpcStream\<close> (the
  decoder). They are written on top of two headers that are not part of the sources at
  hand: \<^verbatim>\<open>lpc_math.h\<close> (\<^verbatim>\<open>LpcConfig\<close>, \<^verbatim>\<open>ToeplitzLpcEstimator\<close>,
  \<^verbatim>\<open>compute_lpc_prediction\<close>) and \<^verbatim>\<open>int_stream.h\<close> (\<^verbatim>\<open>TruncatedIntStream\<close>,
  \<^verbatim>\<open>ReverseTruncatedIntStream\<close>). Everything the three classes call from those headers
  is a parameter of the model: a record of functions over an arbitrary state type.

  Samples are \<^verbatim>\<open>int16_t\<close>, residuals \<^verbatim>\<open>int32_t\<close>, code bytes \<^verbatim>\<open>int8_t\<close>: words of
  that width, read as two's complement with \<open>sint\<close>. \<open>scast\<close> is the sign-extending
  conversion of C++'s integral promotion, \<open>ucast\<close> to a narrower type keeps the low
  bits, as \<^verbatim>\<open>static_cast<int16_t>\<close> does.
\<close>

type_synonym int8 = "8 word"
type_synonym int16 = "16 word"
type_synonym int32 = "32 word"

subsection \<open>What the header takes from \<^verbatim>\<open>lpc_math.h\<close>\<close>

text \<open>
  \<^verbatim>\<open>Config()\<close> is read for two fields only, \<^verbatim>\<open>lpc_order\<close> and \<^verbatim>\<open>block_size\<close>; the
  configuration is fixed at construction.
\<close>

record LpcConfig =
  lpc_order :: nat
  block_size :: nat

text \<open>
  The base class \<^verbatim>\<open>ToeplitzLpcEstimator\<close> with state \<open>'e\<close> and coefficient type
  \<open>'c\<close> (\<^verbatim>\<open>LpcCoeffs\<close>). A pointer into \<^verbatim>\<open>buffer_storage_\<close> is passed as the vector
  and an index into it:
  \<^item> \<open>Estimator_ctor cfg\<close>: the state after \<^verbatim>\<open>ToeplitzLpcEstimator(lpc_config)\<close>;
  \<^item> \<open>GetLpcCoeffs e\<close>: the coefficients currently held;
  \<^item> \<open>AcceptBlock e buf res\<close>: the state after \<^verbatim>\<open>AcceptBlock(buffer_start_, &residual_[0])\<close>,
    where \<open>buf\<close> is the whole of \<^verbatim>\<open>buffer_storage_\<close> (\<^verbatim>\<open>buffer_start_\<close> is its index
    \<open>lpc_order\<close>) and \<open>res\<close> the whole of \<^verbatim>\<open>residual_\<close>;
  \<^item> \<open>compute_lpc_prediction buf pos c\<close>: the value of
    \<^verbatim>\<open>int_math::compute_lpc_prediction(buffer_pos, &coeffs)\<close> where \<^verbatim>\<open>buffer_pos\<close>
    points at index \<open>pos\<close> of \<open>buf\<close>.
  Both calls read the vectors they are given and change nothing but the estimator's own
  state; the result of a call depends on nothing but its arguments.
\<close>

record ('e, 'c) ToeplitzLpcEstimator =
  Estimator_ctor :: "LpcConfig \<Rightarrow> 'e"
  GetLpcCoeffs :: "'e \<Rightarrow> 'c"
  AcceptBlock :: "'e \<Rightarrow> int16 list \<Rightarrow> int32 list \<Rightarrow> 'e"
  compute_lpc_prediction :: "int16 list \<Rightarrow> nat \<Rightarrow> 'c \<Rightarrow> int16"

subsection \<open>What the header takes from \<^verbatim>\<open>int_stream.h\<close>\<close>

text \<open>
  The residual coder, with encoder state \<open>'w\<close> (\<^verbatim>\<open>TruncatedIntStream\<close>) and decoder
  state \<open>'r\<close> (\<^verbatim>\<open>ReverseTruncatedIntStream\<close>):
  \<^item> \<open>Coder_ctor\<close>: the state after \<^verbatim>\<open>TruncatedIntStream(truncation_config)\<close>;
  \<^item> \<open>WriteLimited w residual prediction\<close>: the new state and the two values written
    through \<^verbatim>\<open>&decompressed_value\<close> and \<^verbatim>\<open>&decompressed_residual\<close>;
  \<^item> \<open>Code w\<close>: the bytes of the code after \<^verbatim>\<open>Flush()\<close>;
  \<^item> \<open>Reverse_ctor code\<close>: the state after
    \<^verbatim>\<open>ReverseTruncatedIntStream(truncation_config, code, code_memory_end)\<close>;
  \<^item> \<open>Reverse_Read r\<close>: \<^verbatim>\<open>ReverseTruncatedIntStream::Read(&residual)\<close>; \<open>None\<close> when it
    returns \<^verbatim>\<open>false\<close>, the residual when it returns \<^verbatim>\<open>true\<close>, and the state it leaves.
\<close>

record ('w, 'r) TruncatedIntStream =
  Coder_ctor :: "'w"
  WriteLimited :: "'w \<Rightarrow> int32 \<Rightarrow> int16 \<Rightarrow> 'w \<times> int16 \<times> int32"
  Code :: "'w \<Rightarrow> int8 list"
  Reverse_ctor :: "int8 list \<Rightarrow> 'r"
  Reverse_Read :: "'r \<Rightarrow> int32 option \<times> 'r"

subsection \<open>class \<^verbatim>\<open>LpcPrediction\<close>\<close>

text \<open>
  The private members \<^verbatim>\<open>t_\<close>, \<^verbatim>\<open>buffer_storage_\<close> and \<^verbatim>\<open>residual_\<close>, and the state of
  the base class as \<open>estimator\<close> (a name cannot end in an underscore here, so the
  members carry the suffix \<open>m\<close>). \<^verbatim>\<open>buffer_start_\<close> is the constant pointer
  \<^verbatim>\<open>&buffer_storage_[lpc_order]\<close>: \<^verbatim>\<open>buffer_start_[k]\<close> is index \<open>lpc_order + k\<close> of
  \<open>buffer_storage_m\<close>. The counter \<^verbatim>\<open>t_\<close> is an \<^verbatim>\<open>int\<close> that starts at 0 and is only
  ever incremented; it is a natural number here. The two agree as long as \<^verbatim>\<open>t_++\<close> does
  not overflow, that is for the first \<open>2^31 - 1\<close> calls of \<^verbatim>\<open>AdvanceLpcState\<close> on a
  stream; every theorem below about a run of calls is stated for runs of fewer than
  \<open>2^31\<close> calls only.
\<close>

record 'e LpcPrediction =
  t_m :: nat
  buffer_storage_m :: "int16 list"
  residual_m :: "int32 list"
  estimator :: 'e

definition LpcPrediction_ctor :: "('e, 'c) ToeplitzLpcEstimator \<Rightarrow> LpcConfig \<Rightarrow> 'e LpcPrediction" where
  "LpcPrediction_ctor E cfg =
     \<lparr> t_m = 0,
       buffer_storage_m = replicate (lpc_order cfg + block_size cfg) 0,
       residual_m = replicate (block_size cfg) 0,
       estimator = Estimator_ctor E cfg \<rparr>"

definition GetPrediction :: "('e, 'c) ToeplitzLpcEstimator \<Rightarrow> LpcConfig \<Rightarrow> 'e LpcPrediction \<Rightarrow> int16" where
  "GetPrediction E cfg s =
     compute_lpc_prediction E (buffer_storage_m s)
       (lpc_order cfg + t_m s mod block_size cfg)
       (GetLpcCoeffs E (estimator s))"

text \<open>
  The loop of \<^verbatim>\<open>AdvanceLpcState\<close>,
  \<^verbatim>\<open>for (int i = -lpc_order; i < 0; i++) buffer_start_[i] = buffer_start_[block_size + i];\<close>
  with the loop variable \<open>i\<close> as an integer.
\<close>

function copy_context :: "LpcConfig \<Rightarrow> int \<Rightarrow> int16 list \<Rightarrow> int16 list" where
  "copy_context cfg i buf =
     (if i < 0
      then copy_context cfg (i + 1)
             (buf[nat (int (lpc_order cfg) + i) :=
                    buf ! nat (int (lpc_order cfg) + int (block_size cfg) + i)])
      else buf)"
  by pat_completeness auto
termination
  by (relation "measure (\<lambda>(cfg, i, buf). nat (- i))") auto

text \<open>
  The condition of the \<^verbatim>\<open>assert\<close> in \<^verbatim>\<open>AdvanceLpcState\<close>:
  \<^verbatim>\<open>t_mod > 2 || residual == value - (int32_t)GetPrediction()\<close>.
\<close>

definition advance_assertion ::
  "('e, 'c) ToeplitzLpcEstimator \<Rightarrow> LpcConfig \<Rightarrow> 'e LpcPrediction \<Rightarrow> int16 \<Rightarrow> int32 \<Rightarrow> bool" where
  "advance_assertion E cfg s value residual =
     (let t_mod = t_m s mod block_size cfg
      in t_mod > 2 \<or> residual = scast value - scast (GetPrediction E cfg s))"

text \<open>
  \<^verbatim>\<open>AdvanceLpcState(value, residual)\<close>. \<open>ndebug\<close> says whether the build defines
  \<^verbatim>\<open>NDEBUG\<close>; without it a failed \<^verbatim>\<open>assert\<close> aborts the program, which is the result
  \<open>None\<close>. The last line, \<^verbatim>\<open>t_++\<close> on an \<^verbatim>\<open>int\<close>, is \<open>t_m + 1\<close> on a natural number: the
  two agree while \<open>t_m < 2^31 - 1\<close>, and the theorems about runs of calls from the
  constructor's state assume fewer than \<open>2^31\<close> calls.
\<close>

definition AdvanceLpcState ::
  "bool \<Rightarrow> ('e, 'c) ToeplitzLpcEstimator \<Rightarrow> LpcConfig \<Rightarrow> 'e LpcPrediction \<Rightarrow> int16 \<Rightarrow> int32
     \<Rightarrow> 'e LpcPrediction option" where
  "AdvanceLpcState ndebug E cfg s value residual =
     (let t_mod = t_m s mod block_size cfg
      in if \<not> ndebug \<and> \<not> advance_assertion E cfg s value residual then None
         else
           let s1 = (if t_mod = 0 \<and> t_m s \<noteq> 0
                     then let buf = copy_context cfg (- int (lpc_order cfg)) (buffer_storage_m s)
                          in s\<lparr> buffer_storage_m := buf,
                                estimator := AcceptBlock E (estimator s) buf (residual_m s) \<rparr>
                     else s)
           in Some (s1\<lparr> buffer_storage_m := (buffer_storage_m s1)[lpc_order cfg + t_mod := value],
                        residual_m := (residual_m s1)[t_mod := residual],
                        t_m := t_m s1 + 1 \<rparr>))"

subsection \<open>class \<^verbatim>\<open>LpcStream\<close>\<close>

text \<open>
  \<^verbatim>\<open>Write(value, decompressed_value_out)\<close> on the pair of the two base-class states.
  The second component of the result is \<^verbatim>\<open>decompressed_value\<close>, which is what is stored
  through \<^verbatim>\<open>decompressed_value_out\<close> when that pointer is not null. The two lines that
  print to \<^verbatim>\<open>std::cout\<close> change neither state and are left out.
\<close>

definition Write ::
  "bool \<Rightarrow> ('e, 'c) ToeplitzLpcEstimator \<Rightarrow> ('w, 'r) TruncatedIntStream \<Rightarrow> LpcConfig
     \<Rightarrow> 'w \<times> 'e LpcPrediction \<Rightarrow> int16 \<Rightarrow> (('w \<times> 'e LpcPrediction) \<times> int16) option" where
  "Write ndebug E C cfg st value =
     (let prediction = GetPrediction E cfg (snd st);
          residual = scast value - scast prediction;
          (w', decompressed_value, decompressed_residual) =
             WriteLimited C (fst st) residual prediction
      in case AdvanceLpcState ndebug E cfg (snd st) decompressed_value decompressed_residual of
           None \<Rightarrow> None
         | Some s' \<Rightarrow> Some ((w', s'), decompressed_value))"

definition LpcStream_ctor ::
  "('e, 'c) ToeplitzLpcEstimator \<Rightarrow> ('w, 'r) TruncatedIntStream \<Rightarrow> LpcConfig \<Rightarrow> 'w \<times> 'e LpcPrediction" where
  "LpcStream_ctor E C cfg = (Coder_ctor C, LpcPrediction_ctor E cfg)"

subsection \<open>class \<^verbatim>\<open>ReverseLpcStream\<close>\<close>

text \<open>
  \<^verbatim>\<open>Read(&value)\<close>. The argument \<open>out\<close> is what \<^verbatim>\<open>*value\<close> holds before the call; the
  result is the returned \<^verbatim>\<open>bool\<close>, what \<^verbatim>\<open>*value\<close> holds after the call, and the new
  state. \<^verbatim>\<open>prediction + residual\<close> is the 32-bit two's complement sum: where the sum of
  the two integers does not fit in 32 bits, which C++ leaves undefined, the model wraps
  around. A wrapped sum never passes the range check (\<open>range_check_iff\<close> below), so the
  call returns \<^verbatim>\<open>false\<close> there.
\<close>

definition Read ::
  "bool \<Rightarrow> ('e, 'c) ToeplitzLpcEstimator \<Rightarrow> ('w, 'r) TruncatedIntStream \<Rightarrow> LpcConfig
     \<Rightarrow> 'r \<times> 'e LpcPrediction \<Rightarrow> int16 \<Rightarrow> (bool \<times> int16 \<times> ('r \<times> 'e LpcPrediction)) option" where
  "Read ndebug E C cfg st out =
     (case Reverse_Read C (fst st) of
        (None, r') \<Rightarrow> Some (False, out, (r', snd st))
      | (Some residual, r') \<Rightarrow>
          let prediction = GetPrediction E cfg (snd st);
              next_value = scast prediction + residual
          in if next_value \<noteq> scast (ucast next_value :: int16)
             then Some (False, out, (r', snd st))
             else (case AdvanceLpcState ndebug E cfg (snd st) (ucast next_value) residual of
                     None \<Rightarrow> None
                   | Some s' \<Rightarrow> Some (True, ucast next_value, (r', s'))))"

definition ReverseLpcStream_ctor ::
  "('e, 'c) ToeplitzLpcEstimator \<Rightarrow> ('w, 'r) TruncatedIntStream \<Rightarrow> LpcConfig \<Rightarrow> int8 list
     \<Rightarrow> 'r \<times> 'e LpcPrediction" where
  "ReverseLpcStream_ctor E C cfg code = (Reverse_ctor C code, LpcPrediction_ctor E cfg)"

section \<open>Runs of the streams\<close>

text \<open>
  The header has no loops over samples; its callers have. The drivers below repeat a
  call as a caller does: \<open>advance_all\<close> calls \<^verbatim>\<open>AdvanceLpcState\<close> on each (value,
  residual) pair of a list, \<open>write_all\<close> calls \<^verbatim>\<open>Write\<close> on each sample and collects the
  decompressed values, and \<open>read_n\<close> calls \<^verbatim>\<open>Read\<close> a given number of times on the same
  output variable and collects the returned flag and the content of the variable after
  each call. A run that aborts on the \<^verbatim>\<open>assert\<close> is \<open>None\<close>.
\<close>

fun advance_all ::
  "bool \<Rightarrow> ('e, 'c) ToeplitzLpcEstimator \<Rightarrow> LpcConfig \<Rightarrow> 'e LpcPrediction \<Rightarrow> (int16 \<times> int32) list
     \<Rightarrow> 'e LpcPrediction option" where
  "advance_all ndebug E cfg s [] = Some s"
| "advance_all ndebug E cfg s (p # ps) =
     (case AdvanceLpcState ndebug E cfg s (fst p) (snd p) of
        None \<Rightarrow> None
      | Some s' \<Rightarrow> advance_all ndebug E cfg s' ps)"

fun write_all ::
  "bool \<Rightarrow> ('e, 'c) ToeplitzLpcEstimator \<Rightarrow> ('w, 'r) TruncatedIntStream \<Rightarrow> LpcConfig
     \<Rightarrow> 'w \<times> 'e LpcPrediction \<Rightarrow> int16 list \<Rightarrow> (('w \<times> 'e LpcPrediction) \<times> int16 list) option" where
  "write_all ndebug E C cfg st [] = Some (st, [])"
| "write_all ndebug E C cfg st (x # xs) =
     (case Write ndebug E C cfg st x of
        None \<Rightarrow> None
      | Some (st', d) \<Rightarrow>
          (case write_all ndebug E C cfg st' xs of
             None \<Rightarrow> None
           | Some (st'', ds) \<Rightarrow> Some (st'', d # ds)))"

fun read_n ::
  "bool \<Rightarrow> ('e, 'c) ToeplitzLpcEstimator \<Rightarrow> ('w, 'r) TruncatedIntStream \<Rightarrow> LpcConfig
     \<Rightarrow> nat \<Rightarrow> 'r \<times> 'e LpcPrediction \<Rightarrow> int16
     \<Rightarrow> ((bool \<times> int16) list \<times> ('r \<times> 'e LpcPrediction)) option" where
  "read_n ndebug E C cfg 0 st out = Some ([], st)"
| "read_n ndebug E C cfg (Suc n) st out =
     (case Read ndebug E C cfg st out of
        None \<Rightarrow> None
      | Some (ok, out', st') \<Rightarrow>
          (case read_n ndebug E C cfg n st' out' of
             None \<Rightarrow> None
           | Some (rs, st'') \<Rightarrow> Some ((ok, out') # rs, st'')))"

text \<open>
  The arguments (residual, prediction) that a run of \<open>write_all\<close> passes to
  \<^verbatim>\<open>WriteLimited\<close>, call by call, up to and including the call before an abort.
\<close>

fun write_calls ::
  "bool \<Rightarrow> ('e, 'c) ToeplitzLpcEstimator \<Rightarrow> ('w, 'r) TruncatedIntStream \<Rightarrow> LpcConfig
     \<Rightarrow> 'w \<times> 'e LpcPrediction \<Rightarrow> int16 list \<Rightarrow> (int32 \<times> int16) list" where
  "write_calls ndebug E C cfg st [] = []"
| "write_calls ndebug E C cfg st (x # xs) =
     (let prediction = GetPrediction E cfg (snd st);
          residual = scast x - scast prediction
      in (residual, prediction) #
         (case Write ndebug E C cfg st x of
            None \<Rightarrow> []
          | Some (st', d) \<Rightarrow> write_calls ndebug E C cfg st' xs))"

section \<open>The contract of the residual coder\<close>

text \<open>
  \<open>commit_all\<close> makes a list of \<^verbatim>\<open>WriteLimited\<close> calls and collects the residuals the
  coder committed to; \<open>reverse_reads\<close> makes \<open>n\<close> calls of
  \<^verbatim>\<open>ReverseTruncatedIntStream::Read\<close> and collects what they return.
\<close>

fun commit_all :: "('w, 'r) TruncatedIntStream \<Rightarrow> 'w \<Rightarrow> (int32 \<times> int16) list \<Rightarrow> 'w \<times> int32 list" where
  "commit_all C w [] = (w, [])"
| "commit_all C w (c # cs) =
     (let (w', dv, dr) = WriteLimited C w (fst c) (snd c);
          (w'', drs) = commit_all C w' cs
      in (w'', dr # drs))"

fun reverse_reads :: "('w, 'r) TruncatedIntStream \<Rightarrow> nat \<Rightarrow> 'r \<Rightarrow> int32 option list" where
  "reverse_reads C 0 r = []"
| "reverse_reads C (Suc n) r =
     (let (x, r') = Reverse_Read C r in x # reverse_reads C n r')"

text \<open>
  Modelled from the spec: the coder of \<^verbatim>\<open>int_stream.h\<close> is not among the sources; the
  spec's section on external interfaces asks of it that the decoder side is a pure
  inverse, "given the same configuration and the same emitted codes in order, it must
  reproduce exactly the same residual sequence the encoder committed to", and then
  signals the end of the stream.
\<close>

definition coder_inverse :: "('w, 'r) TruncatedIntStream \<Rightarrow> bool" where
  "coder_inverse C =
     (\<forall>cs. reverse_reads C (Suc (length cs))
             (Reverse_ctor C (Code C (fst (commit_all C (Coder_ctor C) cs))))
           = map Some (snd (commit_all C (Coder_ctor C) cs)) @ [None])"

text \<open>
  Modelled from the spec: the pair the coder reports back is "exactly what a correct
  decoder will later recover", and the decoder recovers prediction + residual; so the
  committed value is the prediction plus the committed residual. Asked only of calls
  whose residual is a sample minus the prediction, as \<^verbatim>\<open>Write\<close> makes them.
\<close>

definition coder_consistent :: "('w, 'r) TruncatedIntStream \<Rightarrow> bool" where
  "coder_consistent C =
     (\<forall>w (v :: int16) p. case WriteLimited C w (scast v - scast p) p of
                (w', dv, dr) \<Rightarrow> scast dv = scast p + dr)"

text \<open>
  Modelled from the spec: a coder "configured to never truncate" commits to the
  residual it is given.
\<close>

definition coder_never_truncates :: "('w, 'r) TruncatedIntStream \<Rightarrow> bool" where
  "coder_never_truncates C =
     (\<forall>w (v :: int16) p. case WriteLimited C w (scast v - scast p) p of
                (w', dv, dr) \<Rightarrow> dr = scast v - scast p)"

section \<open>A small estimator and a small coder to run the streams on\<close>

text \<open>
  \<open>E0\<close> keeps a list of \<open>lpc_order\<close> 16-bit coefficients, all zero at first and each one
  larger after every block; its prediction is the sum of coefficient \<open>i\<close> times the
  sample \<open>i + 1\<close> places before the position.
\<close>

definition E0 :: "(int16 list, int16 list) ToeplitzLpcEstimator" where
  "E0 = \<lparr> Estimator_ctor = (\<lambda>cfg. replicate (lpc_order cfg) 0),
          GetLpcCoeffs = (\<lambda>e. e),
          AcceptBlock = (\<lambda>e buf res. map (\<lambda>c. c + 1) e),
          compute_lpc_prediction =
            (\<lambda>buf pos c. sum_list (map (\<lambda>i. c ! i * buf ! (pos - 1 - i)) [0..<length c])) \<rparr>"

text \<open>
  \<open>C0\<close> never truncates: it writes each residual as four bytes, low byte first, and
  reads them back four at a time.
\<close>

definition bytes4 :: "int32 \<Rightarrow> int8 list" where
  "bytes4 r = [ucast r, ucast (drop_bit 8 r), ucast (drop_bit 16 r), ucast (drop_bit 24 r)]"

definition word4 :: "int8 \<Rightarrow> int8 \<Rightarrow> int8 \<Rightarrow> int8 \<Rightarrow> int32" where
  "word4 a b c d =
     ucast a OR push_bit 8 (ucast b) OR push_bit 16 (ucast c) OR push_bit 24 (ucast d)"

definition C0 :: "(int8 list, int8 list) TruncatedIntStream" where
  "C0 = \<lparr> Coder_ctor = [],
          WriteLimited = (\<lambda>w residual prediction.
             (w @ bytes4 residual, ucast (scast prediction + residual), residual)),
          Code = (\<lambda>w. w),
          Reverse_ctor = (\<lambda>code. code),
          Reverse_Read = (\<lambda>r. case r of
             a # b # c # d # rest \<Rightarrow> (Some (word4 a b c d), rest)
           | _ \<Rightarrow> (None, r)) \<rparr>"

text \<open>
  \<open>C_lossy\<close> truncates: it commits to the residual with its lowest bit cleared, unless
  that would take prediction plus residual out of the 16-bit range.
\<close>

definition lossy_commit :: "int32 \<Rightarrow> int16 \<Rightarrow> int32" where
  "lossy_commit residual prediction =
     (let q = push_bit 1 (drop_bit 1 residual)
      in if scast (ucast (scast prediction + q) :: int16) = scast prediction + q
         then q else residual)"

definition C_lossy :: "(int8 list, int8 list) TruncatedIntStream" where
  "C_lossy = \<lparr> Coder_ctor = [],
          WriteLimited = (\<lambda>w residual prediction.
             (w @ bytes4 (lossy_commit residual prediction),
              ucast (scast prediction + lossy_commit residual prediction),
              lossy_commit residual prediction)),
          Code = (\<lambda>w. w),
          Reverse_ctor = (\<lambda>code. code),
          Reverse_Read = (\<lambda>r. case r of
             a # b # c # d # rest \<Rightarrow> (Some (word4 a b c d), rest)
           | _ \<Rightarrow> (None, r)) \<rparr>"

text \<open>
  \<open>C_unfaithful\<close> commits to the same residuals as \<open>C_lossy\<close> and its decoder side
  returns them, but the value it reports is the prediction plus the residual it was
  asked to code, not plus the residual it committed to.
\<close>

definition C_unfaithful :: "(int8 list, int8 list) TruncatedIntStream" where
  "C_unfaithful = \<lparr> Coder_ctor = [],
          WriteLimited = (\<lambda>w residual prediction.
             (w @ bytes4 (lossy_commit residual prediction),
              ucast (scast prediction + residual),
              lossy_commit residual prediction)),
          Code = (\<lambda>w. w),
          Reverse_ctor = (\<lambda>code. code),
          Reverse_Read = (\<lambda>r. case r of
             a # b # c # d # rest \<Rightarrow> (Some (word4 a b c d), rest)
           | _ \<Rightarrow> (None, r)) \<rparr>"

definition samples_lossy :: "int16 list" where
  "samples_lossy = [11, 20, 15, 5, 31, 24, 10, 0]"

definition code0 :: "int8 list" where
  "code0 = [10, 0, 0, 0, 20, 0, 0, 0, 15, 0, 0, 0, 5, 0, 0, 0, 30, 0, 0, 0,
            246, 255, 255, 255, 211, 255, 255, 255, 221, 255, 255, 255]"

definition s_eight :: "int16 list LpcPrediction" where
  "s_eight = \<lparr> t_m = 8, buffer_storage_m = [15, 5, 30, 25, 10, 0],
                residual_m = [30, - 10, - 45, - 35], estimator = [1, 1] \<rparr>"

definition code_lossy :: "int8 list" where
  "code_lossy = [10, 0, 0, 0, 20, 0, 0, 0, 14, 0, 0, 0, 4, 0, 0, 0, 30, 0, 0, 0,
                 246, 255, 255, 255, 212, 255, 255, 255, 222, 255, 255, 255]"

definition s_lossy_eight :: "int16 list LpcPrediction" where
  "s_lossy_eight = \<lparr> t_m = 8, buffer_storage_m = [14, 4, 30, 24, 10, 0],
                      residual_m = [30, - 10, - 44, - 34], estimator = [1, 1] \<rparr>"

definition s_lossy_five :: "int16 list LpcPrediction" where
  "s_lossy_five = \<lparr> t_m = 5, buffer_storage_m = [14, 4, 30, 20, 14, 4],
                     residual_m = [30, 20, 14, 4], estimator = [1, 1] \<rparr>"

definition pairs8 :: "(int16 \<times> int32) list" where
  "pairs8 = [(10, 10), (20, 20), (15, 15), (5, 5), (30, 30), (25, - 10), (10, - 45), (0, - 35)]"

definition cfg0 :: LpcConfig where
  "cfg0 = \<lparr> lpc_order = 2, block_size = 4 \<rparr>"

text \<open>The state of the residual decoder after \<open>n\<close> of its reads.\<close>

fun reverse_skip :: "('w, 'r) TruncatedIntStream \<Rightarrow> nat \<Rightarrow> 'r \<Rightarrow> 'r" where
  "reverse_skip C 0 r = r"
| "reverse_skip C (Suc n) r = reverse_skip C n (snd (Reverse_Read C r))"

text \<open>
  A state of \<^verbatim>\<open>LpcPrediction\<close> whose two vectors have the sizes the constructor gives
  them; \<^verbatim>\<open>AdvanceLpcState\<close> never resizes them.
\<close>

definition sized :: "LpcConfig \<Rightarrow> 'e LpcPrediction \<Rightarrow> bool" where
  "sized cfg s =
     (length (buffer_storage_m s) = lpc_order cfg + block_size cfg \<and>
      length (residual_m s) = block_size cfg)"

text \<open>Concrete states of the small instance.\<close>

definition s_fresh :: "int16 list LpcPrediction" where
  "s_fresh = LpcPrediction_ctor E0 cfg0"

definition s_boundary :: "int16 list LpcPrediction" where
  "s_boundary = \<lparr> t_m = 4, buffer_storage_m = [1, 2, 3, 4, 5, 6],
                  residual_m = [7, 8, 9, 10], estimator = [0, 0] \<rparr>"

definition samples0 :: "int16 list" where
  "samples0 = [10, 20, 15, 5, 30, 25, 10, 0]"

definition pairs_block0 :: "(int16 \<times> int32) list" where
  "pairs_block0 = [(10, 10), (20, 20), (15, 15), (5, 5)]"

definition s_block0 :: "int16 list LpcPrediction" where
  "s_block0 = \<lparr> t_m = 4, buffer_storage_m = [0, 0, 10, 20, 15, 5],
                 residual_m = [10, 20, 15, 5], estimator = [0, 0] \<rparr>"

definition pairs6 :: "(int16 \<times> int32) list" where
  "pairs6 = [(10, 10), (20, 20), (15, 15), (5, 5), (30, 30), (25, - 10)]"

definition s6 :: "int16 list LpcPrediction" where
  "s6 = \<lparr> t_m = 6, buffer_storage_m = [15, 5, 30, 25, 15, 5],
           residual_m = [30, - 10, 15, 5], estimator = [1, 1] \<rparr>"

definition s_three_written :: "int16 list LpcPrediction" where
  "s_three_written = \<lparr> t_m = 3, buffer_storage_m = [0, 0, 10, 20, 15, 0],
                        residual_m = [10, 20, 15, 0], estimator = [0, 0] \<rparr>"

definition s_two_read :: "int16 list LpcPrediction" where
  "s_two_read = \<lparr> t_m = 2, buffer_storage_m = [0, 0, 5, 6, 0, 0],
                   residual_m = [5, 6, 0, 0], estimator = [0, 0] \<rparr>"

section \<open>Words\<close>

lemma ucast_scast16: "(ucast (scast (v :: int16) :: int32) :: int16) = v"
  by (rule bit_word_eqI) (auto simp add: bit_simps)

lemma sint_scast16: "sint (scast (w :: int16) :: int32) = sint w"
  by (rule sint_up_scast) (simp add: is_up)

lemma sint16_bounds: "- (2 ^ 15) \<le> sint (w :: int16)" "sint (w :: int16) < 2 ^ 15"
  using sint_ge[of w] sint_lt[of w] by simp_all

lemma sint_promoted_diff:
  "sint (scast (v :: int16) - scast (p :: int16) :: int32) = sint v - sint p"
proof -
  have "sint (scast v - scast p :: int32) = signed_take_bit 31 (sint v - sint p)"
    by (simp add: sint_word_ariths sint_scast16)
  also have "\<dots> = sint v - sint p"
    using sint16_bounds[of v] sint16_bounds[of p]
    by (intro signed_take_bit_int_eq_self) simp_all
  finally show ?thesis .
qed

lemma range_check_sum:
  fixes p :: int16 and r :: int32
  assumes "scast (ucast (scast p + r) :: int16) = scast p + r"
  shows "sint (ucast (scast p + r) :: int16) = sint p + sint r"
proof -
  define v :: int16 where "v = ucast (scast p + r)"
  have r: "r = scast v - scast p" using assms by (simp add: v_def)
  show ?thesis unfolding v_def[symmetric] by (simp add: r sint_promoted_diff)
qed

section \<open>The small coder keeps the contract\<close>

lemma word4_bytes4:
  "word4 (ucast r) (ucast (drop_bit 8 r)) (ucast (drop_bit 16 r)) (ucast (drop_bit 24 r)) = r"
  unfolding word4_def
proof (rule bit_word_eqI)
  fix n :: nat
  assume n: "n < LENGTH(32)"
  consider "n < 8" | "8 \<le> n" "n < 16" | "16 \<le> n" "n < 24" | "24 \<le> n" "n < 32"
    using n by fastforce
  then show "bit (ucast (ucast r :: int8) OR push_bit 8 (ucast (ucast (drop_bit 8 r) :: int8)) OR
       push_bit 16 (ucast (ucast (drop_bit 16 r) :: int8)) OR
       push_bit 24 (ucast (ucast (drop_bit 24 r) :: int8)) :: int32) n = bit r n"
    by cases (auto simp add: bit_simps)
qed

lemma C0_simps:
  "Coder_ctor C0 = []"
  "WriteLimited C0 w residual prediction =
     (w @ bytes4 residual, ucast (scast prediction + residual), residual)"
  "Code C0 w = w"
  "Reverse_ctor C0 code = code"
  "Reverse_Read C0 (a # b # c # d # rest) = (Some (word4 a b c d), rest)"
  "Reverse_Read C0 [] = (None, [])"
  by (simp_all add: C0_def)

lemma C0_reads:
  "reverse_reads C0 (Suc (length rs)) (concat (map bytes4 rs)) = map Some rs @ [None]"
  by (induction rs) (simp_all add: C0_simps bytes4_def word4_bytes4)

lemma C0_commit: "commit_all C0 w cs = (w @ concat (map (bytes4 \<circ> fst) cs), map fst cs)"
  by (induction cs arbitrary: w) (simp_all add: C0_simps)

lemma C0_inverse: "coder_inverse C0"
  unfolding coder_inverse_def
proof
  fix cs :: "(int32 \<times> int16) list"
  have "reverse_reads C0 (Suc (length (map fst cs))) (concat (map bytes4 (map fst cs))) =
          map Some (map fst cs) @ [None]"
    by (rule C0_reads)
  then show "reverse_reads C0 (Suc (length cs))
               (Reverse_ctor C0 (Code C0 (fst (commit_all C0 (Coder_ctor C0) cs)))) =
             map Some (snd (commit_all C0 (Coder_ctor C0) cs)) @ [None]"
    by (simp only: C0_commit C0_simps fst_conv snd_conv append_Nil length_map map_map)
qed

lemma C0_consistent: "coder_consistent C0"
  by (simp add: coder_consistent_def C0_simps ucast_scast16)

lemma C0_never_truncates: "coder_never_truncates C0"
  by (simp add: coder_never_truncates_def C0_simps)

lemma C_lossy_simps:
  "Coder_ctor C_lossy = []"
  "WriteLimited C_lossy w residual prediction =
     (w @ bytes4 (lossy_commit residual prediction),
      ucast (scast prediction + lossy_commit residual prediction),
      lossy_commit residual prediction)"
  "Code C_lossy w = w"
  "Reverse_ctor C_lossy code = code"
  "Reverse_Read C_lossy (a # b # c # d # rest) = (Some (word4 a b c d), rest)"
  "Reverse_Read C_lossy [] = (None, [])"
  by (simp_all add: C_lossy_def)

lemma C_lossy_reads:
  "reverse_reads C_lossy (Suc (length rs)) (concat (map bytes4 rs)) = map Some rs @ [None]"
  by (induction rs) (simp_all add: C_lossy_simps bytes4_def word4_bytes4)

lemma C_lossy_commit:
  "commit_all C_lossy w cs =
     (w @ concat (map bytes4 (map (\<lambda>c. lossy_commit (fst c) (snd c)) cs)),
      map (\<lambda>c. lossy_commit (fst c) (snd c)) cs)"
  by (induction cs arbitrary: w) (simp_all add: C_lossy_simps)

lemma C_lossy_inverse: "coder_inverse C_lossy"
  unfolding coder_inverse_def
proof
  fix cs :: "(int32 \<times> int16) list"
  let ?drs = "map (\<lambda>c. lossy_commit (fst c) (snd c)) cs"
  have "reverse_reads C_lossy (Suc (length ?drs)) (concat (map bytes4 ?drs)) =
          map Some ?drs @ [None]"
    by (rule C_lossy_reads)
  then show "reverse_reads C_lossy (Suc (length cs))
               (Reverse_ctor C_lossy (Code C_lossy (fst (commit_all C_lossy (Coder_ctor C_lossy) cs)))) =
             map Some (snd (commit_all C_lossy (Coder_ctor C_lossy) cs)) @ [None]"
    by (simp only: C_lossy_commit C_lossy_simps fst_conv snd_conv append_Nil length_map)
qed

lemma C_lossy_consistent: "coder_consistent C_lossy"
  unfolding coder_consistent_def
proof (intro allI)
  fix w :: "int8 list" and v p :: int16
  let ?r = "scast v - scast p :: int32"
  have "(scast (ucast (scast p + lossy_commit ?r p) :: int16) :: int32) =
          scast p + lossy_commit ?r p"
    by (simp add: lossy_commit_def Let_def ucast_scast16)
  then show "case WriteLimited C_lossy w ?r p of (w', dv, dr) \<Rightarrow> scast dv = scast p + dr"
    by (simp add: C_lossy_simps)
qed

lemma C_unfaithful_simps:
  "Coder_ctor C_unfaithful = []"
  "WriteLimited C_unfaithful w residual prediction =
     (w @ bytes4 (lossy_commit residual prediction),
      ucast (scast prediction + residual),
      lossy_commit residual prediction)"
  "Code C_unfaithful w = w"
  "Reverse_ctor C_unfaithful code = code"
  "Reverse_Read C_unfaithful (a # b # c # d # rest) = (Some (word4 a b c d), rest)"
  "Reverse_Read C_unfaithful [] = (None, [])"
  by (simp_all add: C_unfaithful_def)

lemma C_unfaithful_reads:
  "reverse_reads C_unfaithful (Suc (length rs)) (concat (map bytes4 rs)) = map Some rs @ [None]"
  by (induction rs) (simp_all add: C_unfaithful_simps bytes4_def word4_bytes4)

lemma C_unfaithful_commit:
  "commit_all C_unfaithful w cs =
     (w @ concat (map bytes4 (map (\<lambda>c. lossy_commit (fst c) (snd c)) cs)),
      map (\<lambda>c. lossy_commit (fst c) (snd c)) cs)"
  by (induction cs arbitrary: w) (simp_all add: C_unfaithful_simps)

lemma C_unfaithful_inverse: "coder_inverse C_unfaithful"
  unfolding coder_inverse_def
proof
  fix cs :: "(int32 \<times> int16) list"
  let ?drs = "map (\<lambda>c. lossy_commit (fst c) (snd c)) cs"
  have "reverse_reads C_unfaithful (Suc (length ?drs)) (concat (map bytes4 ?drs)) =
          map Some ?drs @ [None]"
    by (rule C_unfaithful_reads)
  then show "reverse_reads C_unfaithful (Suc (length cs))
               (Reverse_ctor C_unfaithful
                  (Code C_unfaithful (fst (commit_all C_unfaithful (Coder_ctor C_unfaithful) cs)))) =
             map Some (snd (commit_all C_unfaithful (Coder_ctor C_unfaithful) cs)) @ [None]"
    by (simp only: C_unfaithful_commit C_unfaithful_simps fst_conv snd_conv append_Nil length_map)
qed

lemma E0_simps:
  "Estimator_ctor E0 cfg = replicate (lpc_order cfg) 0"
  "GetLpcCoeffs E0 e = e"
  "AcceptBlock E0 e buf res = map (\<lambda>c. c + 1) e"
  "compute_lpc_prediction E0 buf pos c =
     sum_list (map (\<lambda>i. c ! i * buf ! (pos - 1 - i)) [0..<length c])"
  by (simp_all add: E0_def)

section \<open>The loop that copies the context\<close>

declare copy_context.simps [simp del]

lemma copy_context_length: "length (copy_context cfg i buf) = length buf"
  by (induction cfg i buf rule: copy_context.induct) (subst copy_context.simps, simp)

lemma copy_context_nth:
  "- int (lpc_order cfg) \<le> i \<Longrightarrow> idx < length buf \<Longrightarrow>
   copy_context cfg i buf ! idx =
     (if int (lpc_order cfg) + i \<le> int idx \<and> idx < lpc_order cfg
      then buf ! (idx + block_size cfg) else buf ! idx)"
proof (induction cfg i buf rule: copy_context.induct)
  case (1 cfg i buf)
  show ?case
  proof (cases "i < 0")
    case False
    then show ?thesis by (subst copy_context.simps) auto
  next
    case True
    define j where "j = nat (int (lpc_order cfg) + i)"
    have j: "int j = int (lpc_order cfg) + i" using "1.prems" by (simp add: j_def)
    have rd: "nat (int (lpc_order cfg) + int (block_size cfg) + i) = j + block_size cfg"
      using j by simp
    let ?buf' = "buf[j := buf ! (j + block_size cfg)]"
    have step: "copy_context cfg i buf = copy_context cfg (i + 1) ?buf'"
      using True by (subst copy_context.simps) (simp add: j_def[symmetric] rd)
    have IH: "copy_context cfg (i + 1) ?buf' ! idx =
       (if int (lpc_order cfg) + (i + 1) \<le> int idx \<and> idx < lpc_order cfg
        then ?buf' ! (idx + block_size cfg) else ?buf' ! idx)"
      using "1.IH"[OF True] "1.prems" True by (simp add: j_def[symmetric] rd)
    have eqj: "(idx = j) =
       (int (lpc_order cfg) + i \<le> int idx \<and> \<not> int (lpc_order cfg) + (i + 1) \<le> int idx)"
      using j by linarith
    show ?thesis
    proof (cases "idx = j")
      case True
      then show ?thesis
        unfolding step IH using j "1.prems" \<open>i < 0\<close> by (simp add: nth_list_update)
    next
      case False
      then show ?thesis
        unfolding step IH using eqj j "1.prems" \<open>i < 0\<close> by (auto simp add: nth_list_update)
    qed
  qed
qed

lemma copy_context_closed:
  assumes "length buf = lpc_order cfg + block_size cfg"
  shows "copy_context cfg (- int (lpc_order cfg)) buf =
           drop (block_size cfg) buf @ drop (lpc_order cfg) buf"
proof (rule nth_equalityI)
  show "length (copy_context cfg (- int (lpc_order cfg)) buf) =
          length (drop (block_size cfg) buf @ drop (lpc_order cfg) buf)"
    using assms by (simp add: copy_context_length)
next
  fix idx assume "idx < length (copy_context cfg (- int (lpc_order cfg)) buf)"
  then have idx: "idx < length buf" by (simp add: copy_context_length)
  show "copy_context cfg (- int (lpc_order cfg)) buf ! idx =
          (drop (block_size cfg) buf @ drop (lpc_order cfg) buf) ! idx"
    using idx assms by (simp add: copy_context_nth nth_append add.commute)
qed

section \<open>Facts about words used by the streams\<close>

lemma promoted_sum:
  fixes p v :: int16 and r :: int32
  assumes "scast p + r = scast v"
  shows "sint v = sint p + sint r"
proof -
  have "r = scast v - scast p" by (simp add: assms[symmetric])
  then show ?thesis by (simp add: sint_promoted_diff)
qed

lemma sint_inj32: "sint (a :: int32) = sint b \<Longrightarrow> a = b"
  by (rule signed_word_eqI)

lemma range_check_iff:
  fixes p :: int16 and r :: int32
  shows "(scast (ucast (scast p + r) :: int16) = scast p + r) \<longleftrightarrow>
         (- (2 ^ 15) \<le> sint p + sint r \<and> sint p + sint r < 2 ^ 15)"
proof
  assume "scast (ucast (scast p + r) :: int16) = scast p + r"
  then have "sint (ucast (scast p + r) :: int16) = sint p + sint r" by (rule range_check_sum)
  then show "- (2 ^ 15) \<le> sint p + sint r \<and> sint p + sint r < 2 ^ 15"
    using sint16_bounds[of "ucast (scast p + r)"] by simp
next
  assume rng: "- (2 ^ 15) \<le> sint p + sint r \<and> sint p + sint r < 2 ^ 15"
  define v :: int16 where "v = word_of_int (sint p + sint r)"
  have sv: "sint v = sint p + sint r"
  proof -
    have "sint v = signed_take_bit 15 (sint p + sint r)"
      unfolding v_def sint_sbintrunc' by simp
    also have "\<dots> = sint p + sint r"
      using rng by (intro signed_take_bit_int_eq_self) simp_all
    finally show ?thesis .
  qed
  have "sint (scast p + r :: int32) = signed_take_bit 31 (sint p + sint r)"
    by (simp add: sint_word_ariths sint_scast16)
  also have "\<dots> = sint p + sint r"
    using rng by (intro signed_take_bit_int_eq_self) simp_all
  finally have "sint (scast p + r :: int32) = sint (scast v :: int32)"
    by (simp add: sv sint_scast16)
  then have eq: "scast p + r = (scast v :: int32)" by (rule sint_inj32)
  show "scast (ucast (scast p + r) :: int16) = scast p + r"
    unfolding eq by (simp add: ucast_scast16)
qed

lemma range_check_fails_iff:
  fixes p :: int16 and r :: int32
  shows "(scast p + r \<noteq> scast (ucast (scast p + r) :: int16)) \<longleftrightarrow>
         (sint p + sint r < - (2 ^ 15) \<or> 2 ^ 15 \<le> sint p + sint r)"
  using range_check_iff[of p r] by (auto simp add: not_le not_less)

section \<open>One call of \<^verbatim>\<open>AdvanceLpcState\<close>\<close>

lemma AdvanceLpcState_abort:
  "\<not> ndebug \<Longrightarrow> \<not> advance_assertion E cfg s v r \<Longrightarrow> AdvanceLpcState ndebug E cfg s v r = None"
  by (simp add: AdvanceLpcState_def)

lemma AdvanceLpcState_boundary:
  assumes "ndebug \<or> advance_assertion E cfg s v r"
    and "length (buffer_storage_m s) = lpc_order cfg + block_size cfg"
    and "t_m s mod block_size cfg = 0" "t_m s \<noteq> 0"
  shows "AdvanceLpcState ndebug E cfg s v r =
     Some \<lparr> t_m = t_m s + 1,
            buffer_storage_m =
              (drop (block_size cfg) (buffer_storage_m s) @ drop (lpc_order cfg) (buffer_storage_m s))
                [lpc_order cfg := v],
            residual_m = (residual_m s)[0 := r],
            estimator = AcceptBlock E (estimator s)
              (drop (block_size cfg) (buffer_storage_m s) @ drop (lpc_order cfg) (buffer_storage_m s))
              (residual_m s) \<rparr>"
  using assms by (auto simp add: AdvanceLpcState_def Let_def copy_context_closed)

lemma AdvanceLpcState_inner:
  assumes "ndebug \<or> advance_assertion E cfg s v r"
    and "\<not> (t_m s mod block_size cfg = 0 \<and> t_m s \<noteq> 0)"
  shows "AdvanceLpcState ndebug E cfg s v r =
     Some \<lparr> t_m = t_m s + 1,
            buffer_storage_m = (buffer_storage_m s)[lpc_order cfg + t_m s mod block_size cfg := v],
            residual_m = (residual_m s)[t_m s mod block_size cfg := r],
            estimator = estimator s \<rparr>"
  using assms by (auto simp add: AdvanceLpcState_def Let_def)

text \<open>
  C5. Context advance at a block boundary. For a state whose buffer has the size the
  constructor gave it, a call that is not stopped by the \<^verbatim>\<open>assert\<close> does the following.
  When \<open>t_ mod block_size = 0\<close> and \<open>t_ \<noteq> 0\<close>: the buffer \<open>ctx\<close> after the copy loop has the
  trailing \<open>lpc_order\<close> entries of the old buffer in its \<open>lpc_order\<close> left-context slots
  and the completed block behind them; the estimator is replaced by
  \<^verbatim>\<open>AcceptBlock\<close> on \<open>ctx\<close> and the old residual vector; only then the value and the
  residual are stored at slot \<open>t_ mod block_size\<close> and \<open>t_\<close> is incremented. At every other
  time the call only stores and increments.
\<close>

theorem advance_at_block_boundary:
  assumes "length (buffer_storage_m s) = lpc_order cfg + block_size cfg"
  shows "AdvanceLpcState ndebug E cfg s v r =
     (if \<not> ndebug \<and> \<not> advance_assertion E cfg s v r then None
      else if t_m s mod block_size cfg = 0 \<and> t_m s \<noteq> 0
      then let ctx = drop (block_size cfg) (buffer_storage_m s) @
                     drop (lpc_order cfg) (buffer_storage_m s)
           in Some \<lparr> t_m = t_m s + 1,
                     buffer_storage_m = ctx[lpc_order cfg + t_m s mod block_size cfg := v],
                     residual_m = (residual_m s)[t_m s mod block_size cfg := r],
                     estimator = AcceptBlock E (estimator s) ctx (residual_m s) \<rparr>
      else Some \<lparr> t_m = t_m s + 1,
                  buffer_storage_m = (buffer_storage_m s)[lpc_order cfg + t_m s mod block_size cfg := v],
                  residual_m = (residual_m s)[t_m s mod block_size cfg := r],
                  estimator = estimator s \<rparr>)"
  using assms by (auto simp add: AdvanceLpcState_def Let_def copy_context_closed)

theorem advance_at_block_boundary_witness:
  "length (buffer_storage_m s_boundary) = lpc_order cfg0 + block_size cfg0 \<and>
   AdvanceLpcState True E0 cfg0 s_boundary 11 12 =
     Some \<lparr> t_m = 5, buffer_storage_m = [5, 6, 11, 4, 5, 6],
            residual_m = [12, 8, 9, 10], estimator = [1, 1] \<rparr>"
proof -
  have len: "length (buffer_storage_m s_boundary) = lpc_order cfg0 + block_size cfg0"
    by (simp add: s_boundary_def cfg0_def)
  show ?thesis
    using len advance_at_block_boundary[OF len, of True E0 11 12]
    by (simp add: s_boundary_def cfg0_def E0_simps)
qed

section \<open>One call of \<^verbatim>\<open>Read\<close> and of \<^verbatim>\<open>Write\<close>\<close>

text \<open>
  C6. Decoder read algorithm. Whenever \<^verbatim>\<open>Read\<close> returns \<^verbatim>\<open>true\<close>, the value it stores is
  the prediction plus the residual that \<^verbatim>\<open>ReverseTruncatedIntStream::Read\<close> decoded (as
  integers, with no wrap-around), and the prediction state has been advanced with
  exactly that value and that residual.
\<close>

theorem read_success:
  assumes "Read ndebug E C cfg st out = Some (True, v, st')"
  shows "\<exists>residual. Reverse_Read C (fst st) = (Some residual, fst st') \<and>
           sint v = sint (GetPrediction E cfg (snd st)) + sint residual \<and>
           AdvanceLpcState ndebug E cfg (snd st) v residual = Some (snd st')"
  using assms
  by (auto simp add: Read_def Let_def promoted_sum split: prod.splits option.splits if_splits)

theorem read_success_witness:
  "Read True E0 C0 cfg0 (bytes4 5, s_fresh) 0 =
     Some (True, 5, ([], \<lparr> t_m = 1, buffer_storage_m = [0, 0, 5, 0, 0, 0],
                           residual_m = [5, 0, 0, 0], estimator = [0, 0] \<rparr>)) \<and>
   (\<exists>residual. Reverse_Read C0 (bytes4 5) = (Some residual, []) \<and>
      sint (5 :: int16) = sint (GetPrediction E0 cfg0 s_fresh) + sint residual \<and>
      AdvanceLpcState True E0 cfg0 s_fresh 5 residual =
        Some \<lparr> t_m = 1, buffer_storage_m = [0, 0, 5, 0, 0, 0],
               residual_m = [5, 0, 0, 0], estimator = [0, 0] \<rparr>)"
proof -
  have h: "Read True E0 C0 cfg0 (bytes4 5, s_fresh) 0 =
     Some (True, 5, ([], \<lparr> t_m = 1, buffer_storage_m = [0, 0, 5, 0, 0, 0],
                           residual_m = [5, 0, 0, 0], estimator = [0, 0] \<rparr>))"
    by code_simp
  show ?thesis using h read_success[OF h] by simp
qed

text \<open>
  C9. Atomicity of decoder failure. Whenever \<^verbatim>\<open>Read\<close> returns \<^verbatim>\<open>false\<close>, for either
  reason, the prediction state (\<open>t_\<close>, buffer, residual vector, estimator) is the one
  before the call and \<^verbatim>\<open>*value\<close> holds what it held before the call.
\<close>

theorem read_failure_atomic:
  assumes "Read ndebug E C cfg st out = Some (False, out', st')"
  shows "snd st' = snd st \<and> out' = out"
  using assms
  by (auto simp add: Read_def Let_def split: prod.splits option.splits if_splits)

theorem read_failure_atomic_witness:
  "Read False E0 C0 cfg0 (bytes4 40000, s_fresh) 7 = Some (False, 7, ([], s_fresh)) \<and>
   snd ([] :: int8 list, s_fresh) = snd (bytes4 40000, s_fresh) \<and> (7 :: int16) = 7"
proof -
  have h: "Read False E0 C0 cfg0 (bytes4 40000, s_fresh) 7 = Some (False, 7, ([], s_fresh))"
    by code_simp
  show ?thesis using h read_failure_atomic[OF h] by simp
qed

text \<open>
  C7. Encoder write algorithm. Every call of \<^verbatim>\<open>Write\<close> computes the residual as the
  sample minus the prediction in 32-bit arithmetic, where the difference of two 16-bit
  values is exact; passes it to \<^verbatim>\<open>WriteLimited\<close> together with the prediction; advances
  the prediction state with the pair the coder reports back, not with the sample and
  the residual; and gives the reported value back to the caller.
\<close>

theorem write_algorithm:
  "\<exists>w' dv dr.
     WriteLimited C (fst st) (scast x - scast (GetPrediction E cfg (snd st)))
       (GetPrediction E cfg (snd st)) = (w', dv, dr) \<and>
     sint (scast x - scast (GetPrediction E cfg (snd st)) :: int32) =
       sint x - sint (GetPrediction E cfg (snd st)) \<and>
     Write ndebug E C cfg st x =
       (case AdvanceLpcState ndebug E cfg (snd st) dv dr of
          None \<Rightarrow> None
        | Some s' \<Rightarrow> Some ((w', s'), dv))"
  by (cases "WriteLimited C (fst st) (scast x - scast (GetPrediction E cfg (snd st)))
               (GetPrediction E cfg (snd st))")
     (simp add: Write_def Let_def sint_promoted_diff)

text \<open>
  C3. The specification asks for a corruption result that differs from the end-of-stream
  result. \<^verbatim>\<open>Read\<close> returns a \<^verbatim>\<open>bool\<close>, and both failures are \<^verbatim>\<open>return false\<close>: on an
  exhausted code and on a code whose residual 40000 takes the candidate out of the
  16-bit range, the call gives the very same result.
\<close>

theorem read_failures_same_result:
  "Read True E0 C0 cfg0 ([], s_fresh) 7 = Some (False, 7, ([], s_fresh)) \<and>
   Read True E0 C0 cfg0 (bytes4 40000, s_fresh) 7 = Some (False, 7, ([], s_fresh))"
  by code_simp

text \<open>
  C3, as amended. \<^verbatim>\<open>Read\<close> returns \<^verbatim>\<open>false\<close> exactly when the residual coder has no
  further residual or when prediction plus residual lies outside the 16-bit range; in
  both cases the result is \<^verbatim>\<open>false\<close> with \<^verbatim>\<open>*value\<close> and the prediction state as before
  the call, so the returned value does not tell the two apart.
\<close>

theorem read_false_cases:
  "Read ndebug E C cfg st out = Some (False, out', st') \<longleftrightarrow>
     out' = out \<and> st' = (snd (Reverse_Read C (fst st)), snd st) \<and>
     (case fst (Reverse_Read C (fst st)) of
        None \<Rightarrow> True
      | Some residual \<Rightarrow>
          sint (GetPrediction E cfg (snd st)) + sint residual < - (2 ^ 15) \<or>
          2 ^ 15 \<le> sint (GetPrediction E cfg (snd st)) + sint residual)"
proof (cases "Reverse_Read C (fst st)")
  case (Pair x r')
  show ?thesis
  proof (cases x)
    case None
    with Pair show ?thesis by (auto simp add: Read_def)
  next
    case (Some residual)
    show ?thesis
    proof (cases "scast (GetPrediction E cfg (snd st)) + residual \<noteq>
                  scast (ucast (scast (GetPrediction E cfg (snd st)) + residual) :: int16)")
      case True
      then have "sint (GetPrediction E cfg (snd st)) + sint residual < - (2 ^ 15) \<or>
                 2 ^ 15 \<le> sint (GetPrediction E cfg (snd st)) + sint residual"
        using range_check_fails_iff[of "GetPrediction E cfg (snd st)" residual] by blast
      with True Pair Some show ?thesis by (auto simp add: Read_def Let_def)
    next
      case False
      then have "\<not> (sint (GetPrediction E cfg (snd st)) + sint residual < - (2 ^ 15) \<or>
                 2 ^ 15 \<le> sint (GetPrediction E cfg (snd st)) + sint residual)"
        using range_check_fails_iff[of "GetPrediction E cfg (snd st)" residual] by blast
      with False Pair Some show ?thesis
        by (auto simp add: Read_def Let_def split: option.splits)
    qed
  qed
qed

theorem read_false_cases_witness:
  "Read False E0 C0 cfg0 (bytes4 40000, s_fresh) 7 = Some (False, 7, ([], s_fresh)) \<and>
   Read False E0 C0 cfg0 ([1, 2], s_fresh) 7 = Some (False, 7, ([1, 2], s_fresh))"
proof -
  have a: "(7 :: int16) = 7 \<and>
      ([], s_fresh) = (snd (Reverse_Read C0 (fst (bytes4 40000, s_fresh))), snd (bytes4 40000, s_fresh)) \<and>
      (case fst (Reverse_Read C0 (fst (bytes4 40000, s_fresh))) of
        None \<Rightarrow> True
      | Some residual \<Rightarrow>
          sint (GetPrediction E0 cfg0 (snd (bytes4 40000, s_fresh))) + sint residual < - (2 ^ 15) \<or>
          2 ^ 15 \<le> sint (GetPrediction E0 cfg0 (snd (bytes4 40000, s_fresh))) + sint residual)"
    by code_simp
  have b: "(7 :: int16) = 7 \<and>
      ([1, 2], s_fresh) = (snd (Reverse_Read C0 (fst ([1, 2], s_fresh))), snd ([1, 2] :: int8 list, s_fresh)) \<and>
      (case fst (Reverse_Read C0 (fst ([1, 2], s_fresh))) of
        None \<Rightarrow> True
      | Some residual \<Rightarrow>
          sint (GetPrediction E0 cfg0 (snd ([1, 2] :: int8 list, s_fresh))) + sint residual < - (2 ^ 15) \<or>
          2 ^ 15 \<le> sint (GetPrediction E0 cfg0 (snd ([1, 2] :: int8 list, s_fresh))) + sint residual)"
    by code_simp
  show ?thesis
    using iffD2[OF read_false_cases a] iffD2[OF read_false_cases b] by blast
qed

section \<open>Runs: the decoder follows the encoder\<close>

lemma AdvanceLpcState_Some:
  "ndebug \<or> advance_assertion E cfg s v r \<Longrightarrow> \<exists>s'. AdvanceLpcState ndebug E cfg s v r = Some s'"
  by (auto simp add: AdvanceLpcState_def Let_def)

lemma consistent_assertion:
  assumes "scast dv = scast (GetPrediction E cfg s) + dr"
  shows "advance_assertion E cfg s dv dr"
  using assms by (simp add: advance_assertion_def)

lemma Write_consistent:
  assumes "coder_consistent C"
  shows "\<exists>w' dv dr s'.
     WriteLimited C (fst st) (scast x - scast (GetPrediction E cfg (snd st)))
       (GetPrediction E cfg (snd st)) = (w', dv, dr) \<and>
     scast dv = scast (GetPrediction E cfg (snd st)) + dr \<and>
     AdvanceLpcState ndebug E cfg (snd st) dv dr = Some s' \<and>
     Write ndebug E C cfg st x = Some ((w', s'), dv)"
proof -
  obtain w' dv dr where wl:
    "WriteLimited C (fst st) (scast x - scast (GetPrediction E cfg (snd st)))
       (GetPrediction E cfg (snd st)) = (w', dv, dr)"
    by (metis prod_cases3)
  have c: "scast dv = scast (GetPrediction E cfg (snd st)) + dr"
    using assms wl unfolding coder_consistent_def
    by (metis (mono_tags, lifting) case_prod_conv)
  obtain s' where adv: "AdvanceLpcState ndebug E cfg (snd st) dv dr = Some s'"
    using AdvanceLpcState_Some[of ndebug E cfg "snd st" dv dr] consistent_assertion[OF c] by blast
  have "Write ndebug E C cfg st x = Some ((w', s'), dv)"
    by (simp add: Write_def Let_def wl adv)
  with wl c adv show ?thesis by blast
qed

lemma Read_follows:
  assumes "Reverse_Read C (fst st) = (Some dr, r1)"
    and "scast dv = scast (GetPrediction E cfg (snd st)) + dr"
  shows "Read ndebug E C cfg st out =
     (case AdvanceLpcState ndebug E cfg (snd st) dv dr of
        None \<Rightarrow> None
      | Some s' \<Rightarrow> Some (True, dv, (r1, s')))"
proof -
  have nv: "scast (GetPrediction E cfg (snd st)) + dr = (scast dv :: int32)"
    by (simp add: assms(2))
  have uc: "(ucast (scast (GetPrediction E cfg (snd st)) + dr) :: int16) = dv"
    unfolding nv by (rule ucast_scast16)
  show ?thesis
    by (cases "AdvanceLpcState ndebug E cfg (snd st) dv dr")
       (simp_all add: Read_def Let_def assms(1) uc nv ucast_scast16)
qed

lemma reverse_reads_length: "length (reverse_reads C n r) = n"
  by (induction n arbitrary: r) (simp_all add: split_def Let_def)

lemma reverse_reads_snoc:
  "reverse_reads C (Suc n) r = reverse_reads C n r @ [fst (Reverse_Read C (reverse_skip C n r))]"
  by (induction n arbitrary: r) (simp_all add: split_def Let_def)

lemma reverse_reads_take:
  "n \<le> m \<Longrightarrow> reverse_reads C n r = take n (reverse_reads C m r)"
proof (induction n arbitrary: m r)
  case 0
  then show ?case by simp
next
  case (Suc n)
  then obtain m' where m: "m = Suc m'" by (cases m) auto
  with Suc show ?case by (simp add: split_def Let_def)
qed

lemma commit_all_length: "length (snd (commit_all C w cs)) = length cs"
  by (induction cs arbitrary: w) (simp_all add: split_def Let_def)

lemma commit_all_take:
  "snd (commit_all C w (take n cs)) = take n (snd (commit_all C w cs))"
proof (induction cs arbitrary: w n)
  case Nil
  then show ?case by simp
next
  case (Cons c cs)
  show ?case by (cases n) (simp_all add: split_def Let_def Cons.IH)
qed

lemma write_calls_take:
  "write_calls ndebug E C cfg st (take n xs) = take n (write_calls ndebug E C cfg st xs)"
proof (induction xs arbitrary: st n)
  case Nil
  then show ?case by simp
next
  case (Cons x xs)
  show ?case
    by (cases n) (simp_all add: Let_def Cons.IH split: option.splits)
qed

lemma write_all_take:
  assumes "write_all ndebug E C cfg st xs = Some (st', ds)"
  shows "\<exists>st''. write_all ndebug E C cfg st (take n xs) = Some (st'', take n ds)"
  using assms
proof (induction xs arbitrary: st n ds)
  case Nil
  then show ?case by simp
next
  case (Cons x xs)
  show ?case
  proof (cases n)
    case 0
    then show ?thesis by simp
  next
    case (Suc k)
    from Cons.prems obtain st1 d ds1 where
      w: "Write ndebug E C cfg st x = Some (st1, d)" and
      r: "write_all ndebug E C cfg st1 xs = Some (st', ds1)" and
      ds: "ds = d # ds1"
      by (auto split: option.splits)
    from Cons.IH[OF r, of k] obtain st'' where
      "write_all ndebug E C cfg st1 (take k xs) = Some (st'', take k ds1)" by blast
    then show ?thesis by (simp add: Suc w ds)
  qed
qed

lemma write_all_length:
  "write_all ndebug E C cfg st xs = Some (st', ds) \<Longrightarrow> length ds = length xs"
  by (induction xs arbitrary: st ds) (auto split: option.splits)

lemma write_all_consistent:
  assumes "coder_consistent C"
  shows "\<exists>st' ds. write_all ndebug E C cfg st xs = Some (st', ds)"
proof (induction xs arbitrary: st)
  case Nil
  then show ?case by simp
next
  case (Cons x xs)
  from Write_consistent[OF assms, of st x E cfg ndebug] obtain st1 d where
    w: "Write ndebug E C cfg st x = Some (st1, d)" by blast
  from Cons.IH[of st1] obtain st' ds where
    "write_all ndebug E C cfg st1 xs = Some (st', ds)" by blast
  then show ?case by (simp add: w)
qed

lemma write_calls_commit:
  assumes "write_all ndebug E C cfg st xs = Some (st', ds)"
  shows "fst (commit_all C (fst st) (write_calls ndebug E C cfg st xs)) = fst st' \<and>
         length (write_calls ndebug E C cfg st xs) = length xs"
  using assms
proof (induction xs arbitrary: st ds)
  case Nil
  then show ?case by simp
next
  case (Cons x xs)
  from Cons.prems obtain st1 d ds1 where
    w: "Write ndebug E C cfg st x = Some (st1, d)" and
    r: "write_all ndebug E C cfg st1 xs = Some (st', ds1)"
    by (auto split: option.splits)
  from w have f: "fst (WriteLimited C (fst st) (scast x - scast (GetPrediction E cfg (snd st)))
        (GetPrediction E cfg (snd st))) = fst st1"
    by (auto simp add: Write_def Let_def split_def split: option.splits)
  from Cons.IH[OF r] show ?case
    by (simp add: Let_def w split_def f)
qed


lemma decoder_follows_encoder:
  assumes cons: "coder_consistent C"
    and w: "write_all ndebug E C cfg (w, s) xs = Some ((w', s'), ds)"
    and rd: "reverse_reads C (length xs) r =
             map Some (snd (commit_all C w (write_calls ndebug E C cfg (w, s) xs)))"
  shows "read_n ndebug E C cfg (length xs) (r, s) out =
           Some (map (Pair True) ds, (reverse_skip C (length xs) r, s'))"
  using w rd
proof (induction xs arbitrary: w s r out ds)
  case Nil
  then show ?case by simp
next
  case (Cons x xs)
  let ?p = "GetPrediction E cfg s"
  from Write_consistent[OF cons, of "(w, s)" x E cfg ndebug]
  obtain w1 dv dr s1 where
    wl: "WriteLimited C w (scast x - scast ?p) ?p = (w1, dv, dr)" and
    c: "scast dv = scast ?p + dr" and
    adv: "AdvanceLpcState ndebug E cfg s dv dr = Some s1" and
    wr: "Write ndebug E C cfg (w, s) x = Some ((w1, s1), dv)"
    by auto
  from Cons.prems(1) wr obtain ds1 where
    rest: "write_all ndebug E C cfg (w1, s1) xs = Some ((w', s'), ds1)" and
    ds: "ds = dv # ds1"
    by (auto split: option.splits)
  have calls: "snd (commit_all C w (write_calls ndebug E C cfg (w, s) (x # xs))) =
      dr # snd (commit_all C w1 (write_calls ndebug E C cfg (w1, s1) xs))"
    by (simp add: Let_def wr wl split_def)
  obtain y r1 where rr: "Reverse_Read C r = (y, r1)" by (cases "Reverse_Read C r")
  from Cons.prems(2) have
    y: "y = Some dr" and
    rd1: "reverse_reads C (length xs) r1 =
            map Some (snd (commit_all C w1 (write_calls ndebug E C cfg (w1, s1) xs)))"
    unfolding calls by (simp_all add: rr)
  have "Read ndebug E C cfg (r, s) out = Some (True, dv, (r1, s1))"
    using Read_follows[of C "(r, s)" dr r1 dv E cfg ndebug out] rr y c adv by simp
  moreover have "read_n ndebug E C cfg (length xs) (r1, s1) dv =
      Some (map (Pair True) ds1, (reverse_skip C (length xs) r1, s'))"
    by (rule Cons.IH[OF rest rd1])
  ultimately show ?case by (simp add: ds rr)
qed

lemma AdvanceLpcState_step:
  assumes "sized cfg s" "0 < block_size cfg"
    and "AdvanceLpcState ndebug E cfg s v r = Some s'"
  shows "sized cfg s' \<and> t_m s' = t_m s + 1 \<and>
         buffer_storage_m s' ! (lpc_order cfg + t_m s mod block_size cfg) = v \<and>
         residual_m s' ! (t_m s mod block_size cfg) = r"
proof -
  have len: "length (buffer_storage_m s) = lpc_order cfg + block_size cfg"
    and lenr: "length (residual_m s) = block_size cfg"
    using assms(1) by (simp_all add: sized_def)
  have ok: "ndebug \<or> advance_assertion E cfg s v r"
  proof (rule ccontr)
    assume "\<not> (ndebug \<or> advance_assertion E cfg s v r)"
    then have "AdvanceLpcState ndebug E cfg s v r = None"
      by (simp add: AdvanceLpcState_abort)
    with assms(3) show False by simp
  qed
  have lt: "t_m s mod block_size cfg < block_size cfg" using assms(2) by simp
  show ?thesis
  proof (cases "t_m s mod block_size cfg = 0 \<and> t_m s \<noteq> 0")
    case True
    with assms(3) AdvanceLpcState_boundary[OF ok len] len lenr lt show ?thesis
      by (auto simp add: sized_def)
  next
    case False
    with assms(3) AdvanceLpcState_inner[OF ok False] len lenr lt show ?thesis
      by (auto simp add: sized_def)
  qed
qed

lemma sized_ctor: "sized cfg (LpcPrediction_ctor E cfg)"
  by (simp add: sized_def LpcPrediction_ctor_def)

lemma Write_advances:
  assumes "Write ndebug E C cfg st x = Some (st', d)"
  shows "\<exists>dr. AdvanceLpcState ndebug E cfg (snd st) d dr = Some (snd st')"
  using assms by (auto simp add: Write_def Let_def split_def split: option.splits)

lemma write_all_invariant:
  assumes "0 < block_size cfg"
    and "write_all ndebug E C cfg st xs = Some (st', ds)" "sized cfg (snd st)"
  shows "sized cfg (snd st') \<and> t_m (snd st') = t_m (snd st) + length xs \<and>
         (xs \<noteq> [] \<longrightarrow>
            buffer_storage_m (snd st') !
              (lpc_order cfg + (t_m (snd st') - 1) mod block_size cfg) = last ds)"
  using assms(2,3)
proof (induction xs arbitrary: st ds)
  case Nil
  then show ?case by simp
next
  case (Cons x xs)
  from Cons.prems(1) obtain st1 d ds1 where
    w: "Write ndebug E C cfg st x = Some (st1, d)" and
    r: "write_all ndebug E C cfg st1 xs = Some (st', ds1)" and
    ds: "ds = d # ds1"
    by (auto split: option.splits)
  from Write_advances[OF w] obtain dr where
    adv: "AdvanceLpcState ndebug E cfg (snd st) d dr = Some (snd st1)" by blast
  note step = AdvanceLpcState_step[OF Cons.prems(2) assms(1) adv]
  from step have sz1: "sized cfg (snd st1)" by blast
  from Cons.IH[OF r sz1] have ih:
    "sized cfg (snd st')" "t_m (snd st') = t_m (snd st1) + length xs"
    "xs \<noteq> [] \<longrightarrow> buffer_storage_m (snd st') !
         (lpc_order cfg + (t_m (snd st') - 1) mod block_size cfg) = last ds1"
    by blast+
  have len: "length ds1 = length xs" using r by (rule write_all_length)
  have t': "t_m (snd st') = t_m (snd st) + length (x # xs)" using ih(2) step by simp
  have slot: "buffer_storage_m (snd st') !
      (lpc_order cfg + (t_m (snd st') - 1) mod block_size cfg) = last ds"
  proof (cases xs)
    case Nil
    with r have "st' = st1" "ds1 = []" by simp_all
    with step ds show ?thesis by simp
  next
    case (Cons y ys)
    with len have "ds1 \<noteq> []" by auto
    with ih(3) ds Cons show ?thesis by simp
  qed
  from ih(1) t' slot show ?case by blast
qed

lemma decode_of_encode:
  assumes inv: "coder_inverse C" and cons: "coder_consistent C"
    and w: "write_all ndebug E C cfg (LpcStream_ctor E C cfg) xs = Some (st_e, ds)"
    and n: "n \<le> length xs"
  shows "\<exists>st_n.
      write_all ndebug E C cfg (LpcStream_ctor E C cfg) (take n xs) = Some (st_n, take n ds) \<and>
      read_n ndebug E C cfg n (ReverseLpcStream_ctor E C cfg (Code C (fst st_e))) out =
        Some (map (Pair True) (take n ds),
              (reverse_skip C n (Reverse_ctor C (Code C (fst st_e))), snd st_n)) \<and>
      (n = length xs \<longrightarrow>
         fst (Reverse_Read C (reverse_skip C n (Reverse_ctor C (Code C (fst st_e))))) = None)"
proof -
  let ?st0 = "LpcStream_ctor E C cfg"
  let ?cs = "write_calls ndebug E C cfg ?st0 xs"
  let ?r0 = "Reverse_ctor C (Code C (fst st_e))"
  have st0: "?st0 = (Coder_ctor C, LpcPrediction_ctor E cfg)" by (simp add: LpcStream_ctor_def)
  from write_calls_commit[OF w] have
    fin: "fst (commit_all C (Coder_ctor C) ?cs) = fst st_e" and len: "length ?cs = length xs"
    by (simp_all add: LpcStream_ctor_def)
  from inv have all: "reverse_reads C (Suc (length xs)) ?r0 =
      map Some (snd (commit_all C (Coder_ctor C) ?cs)) @ [None]"
    unfolding coder_inverse_def using fin len by metis
  have lc: "length (snd (commit_all C (Coder_ctor C) ?cs)) = length xs"
    by (simp add: commit_all_length len)
  from write_all_take[OF w, of n] obtain st_n where
    wn: "write_all ndebug E C cfg ?st0 (take n xs) = Some (st_n, take n ds)" by blast
  have "reverse_reads C n ?r0 = take n (reverse_reads C (Suc (length xs)) ?r0)"
    using n by (intro reverse_reads_take) simp
  also have "\<dots> = map Some (take n (snd (commit_all C (Coder_ctor C) ?cs)))"
    unfolding all using n lc by (simp add: take_map)
  also have "\<dots> = map Some (snd (commit_all C (Coder_ctor C)
        (write_calls ndebug E C cfg ?st0 (take n xs))))"
    by (simp add: commit_all_take write_calls_take)
  finally have rd: "reverse_reads C (length (take n xs)) ?r0 =
      map Some (snd (commit_all C (Coder_ctor C)
        (write_calls ndebug E C cfg (Coder_ctor C, LpcPrediction_ctor E cfg) (take n xs))))"
    using n by (simp add: st0)
  have wn': "write_all ndebug E C cfg (Coder_ctor C, LpcPrediction_ctor E cfg) (take n xs) =
      Some ((fst st_n, snd st_n), take n ds)"
    using wn by (simp add: st0)
  from decoder_follows_encoder[OF cons wn' rd, of out] n have rn:
    "read_n ndebug E C cfg n (ReverseLpcStream_ctor E C cfg (Code C (fst st_e))) out =
        Some (map (Pair True) (take n ds), (reverse_skip C n ?r0, snd st_n))"
    by (simp add: ReverseLpcStream_ctor_def)
  have eos: "n = length xs \<longrightarrow> fst (Reverse_Read C (reverse_skip C n ?r0)) = None"
  proof
    assume "n = length xs"
    from all[unfolded reverse_reads_snoc] lc
    have "[fst (Reverse_Read C (reverse_skip C (length xs) ?r0))] = [None]"
      by (metis append_eq_append_conv length_map reverse_reads_length)
    with \<open>n = length xs\<close> show "fst (Reverse_Read C (reverse_skip C n ?r0)) = None" by simp
  qed
  from wn rn eos show ?thesis by blast
qed

lemma scast16_inj: "(scast (a :: int16) :: int32) = scast b \<Longrightarrow> a = b"
  by (metis ucast_scast16)

lemma write_all_lossless:
  assumes "coder_consistent C" "coder_never_truncates C"
    and "write_all ndebug E C cfg st xs = Some (st', ds)"
  shows "ds = xs"
  using assms(3)
proof (induction xs arbitrary: st ds)
  case Nil
  then show ?case by simp
next
  case (Cons x xs)
  let ?p = "GetPrediction E cfg (snd st)"
  from Write_consistent[OF assms(1), of st x E cfg ndebug]
  obtain w1 dv dr s1 where
    wl: "WriteLimited C (fst st) (scast x - scast ?p) ?p = (w1, dv, dr)" and
    c: "scast dv = scast ?p + dr" and
    wr: "Write ndebug E C cfg st x = Some ((w1, s1), dv)"
    by auto
  have "dr = scast x - scast ?p"
    using assms(2) wl unfolding coder_never_truncates_def
    by (metis (mono_tags, lifting) case_prod_conv)
  with c have "(scast dv :: int32) = scast x" by simp
  then have dv: "dv = x" by (rule scast16_inj)
  from Cons.prems wr obtain ds1 where
    rest: "write_all ndebug E C cfg (w1, s1) xs = Some (st', ds1)" and ds: "ds = dv # ds1"
    by (auto split: option.splits)
  from Cons.IH[OF rest] dv ds show ?case by simp
qed

lemma Read_exhausted:
  "fst (Reverse_Read C (fst st)) = None \<Longrightarrow>
   Read ndebug E C cfg st out = Some (False, out, (snd (Reverse_Read C (fst st)), snd st))"
  by (cases "Reverse_Read C (fst st)") (simp add: Read_def)


text \<open>
  C1. Round trip under a lossless configuration. Let the coder keep its contract (the
  decoder side returns the committed residuals in order and then reports the end; the
  committed value is prediction plus committed residual) and never truncate, and let
  \<open>block_size\<close> be positive. Then for every list \<open>xs\<close> of fewer than \<open>2^31\<close> 16-bit
  samples (so that the \<^verbatim>\<open>int\<close> counter \<^verbatim>\<open>t_\<close>, which ends at \<open>length xs\<close>, does not
  overflow), writing \<open>xs\<close>
  with \<^verbatim>\<open>Write\<close> succeeds and reports \<open>xs\<close> itself as the decompressed values; reading
  the resulting code with \<^verbatim>\<open>Read\<close> returns \<^verbatim>\<open>true\<close> with the samples of \<open>xs\<close> in order;
  and the next \<^verbatim>\<open>Read\<close> returns \<^verbatim>\<open>false\<close> because the residual coder has nothing left.
\<close>

theorem roundtrip_lossless:
  assumes "coder_inverse C" "coder_consistent C" "coder_never_truncates C"
    and "0 < block_size cfg" and "length xs < 2 ^ 31"
  shows "\<exists>st_e st_d.
     write_all ndebug E C cfg (LpcStream_ctor E C cfg) xs = Some (st_e, xs) \<and>
     t_m (snd st_e) = length xs \<and>
     read_n ndebug E C cfg (length xs) (ReverseLpcStream_ctor E C cfg (Code C (fst st_e))) out =
       Some (map (Pair True) xs, st_d) \<and>
     fst (Reverse_Read C (fst st_d)) = None \<and>
     Read ndebug E C cfg st_d (last (out # xs)) =
       Some (False, last (out # xs), (snd (Reverse_Read C (fst st_d)), snd st_d))"
proof -
  from write_all_consistent[OF assms(2), of ndebug E cfg "LpcStream_ctor E C cfg" xs]
  obtain st_e ds where w: "write_all ndebug E C cfg (LpcStream_ctor E C cfg) xs = Some (st_e, ds)"
    by blast
  have ds: "ds = xs" using assms(2,3) w by (rule write_all_lossless)
  from decode_of_encode[OF assms(1,2) w, of "length xs" out] obtain st_n where
    rn: "read_n ndebug E C cfg (length xs) (ReverseLpcStream_ctor E C cfg (Code C (fst st_e))) out =
        Some (map (Pair True) (take (length xs) ds),
              (reverse_skip C (length xs) (Reverse_ctor C (Code C (fst st_e))), snd st_n))" and
    eos: "fst (Reverse_Read C (reverse_skip C (length xs) (Reverse_ctor C (Code C (fst st_e))))) = None"
    by auto
  let ?st_d = "(reverse_skip C (length xs) (Reverse_ctor C (Code C (fst st_e))), snd st_n)"
  have e: "fst (Reverse_Read C (fst ?st_d)) = None" using eos by simp
  have sz: "sized cfg (snd (LpcStream_ctor E C cfg))"
    by (simp add: LpcStream_ctor_def sized_ctor)
  have tm: "t_m (snd st_e) = length xs"
    using write_all_invariant[OF assms(4) w sz]
    by (simp add: LpcStream_ctor_def LpcPrediction_ctor_def)
  from w ds rn e tm Read_exhausted[OF e, of ndebug E cfg "last (out # xs)"] show ?thesis
    by (intro exI[of _ st_e] exI[of _ ?st_d]) simp
qed


theorem roundtrip_lossless_witness:
  "coder_inverse C0 \<and> coder_consistent C0 \<and> coder_never_truncates C0 \<and>
   0 < block_size cfg0 \<and> length samples0 < 2 ^ 31 \<and>
   (\<exists>st_e st_d.
     write_all False E0 C0 cfg0 (LpcStream_ctor E0 C0 cfg0) samples0 = Some (st_e, samples0) \<and>
     t_m (snd st_e) = length samples0 \<and>
     read_n False E0 C0 cfg0 (length samples0)
         (ReverseLpcStream_ctor E0 C0 cfg0 (Code C0 (fst st_e))) 7 =
       Some (map (Pair True) samples0, st_d) \<and>
     fst (Reverse_Read C0 (fst st_d)) = None \<and>
     Read False E0 C0 cfg0 st_d (last (7 # samples0)) =
       Some (False, last (7 # samples0), (snd (Reverse_Read C0 (fst st_d)), snd st_d))) \<and>
   write_all False E0 C0 cfg0 (LpcStream_ctor E0 C0 cfg0) samples0 =
     Some ((code0, s_eight), samples0) \<and>
   read_n False E0 C0 cfg0 9 (ReverseLpcStream_ctor E0 C0 cfg0 code0) 7 =
     Some ([(True, 10), (True, 20), (True, 15), (True, 5), (True, 30), (True, 25),
            (True, 10), (True, 0), (False, 0)], ([], s_eight))"
proof -
  have b: "0 < block_size cfg0" by (simp add: cfg0_def)
  have l: "length samples0 < 2 ^ 31" by (simp add: samples0_def)
  note th = roundtrip_lossless[OF C0_inverse C0_consistent C0_never_truncates b l,
      of False E0 7]
  have w: "write_all False E0 C0 cfg0 (LpcStream_ctor E0 C0 cfg0) samples0 =
     Some ((code0, s_eight), samples0)"
    by code_simp
  have r: "read_n False E0 C0 cfg0 9 (ReverseLpcStream_ctor E0 C0 cfg0 code0) 7 =
     Some ([(True, 10), (True, 20), (True, 15), (True, 5), (True, 30), (True, 25),
            (True, 10), (True, 0), (False, 0)], ([], s_eight))"
    by code_simp
  show ?thesis
    using C0_inverse C0_consistent C0_never_truncates b l th w r
    by - ((rule conjI | assumption)+)
qed

text \<open>
  C2. Lockstep invariant. Let the coder keep its contract and let \<open>block_size\<close> be
  positive. For every list \<open>xs\<close> of fewer than \<open>2^31\<close> samples (so that the \<^verbatim>\<open>int\<close> counter
  \<^verbatim>\<open>t_\<close> does not overflow) and every \<open>n \<le> length xs\<close>: the encoder
  writes \<open>xs\<close>; the decoder, given the code of the whole run, reads \<open>n\<close> samples, all with
  result \<^verbatim>\<open>true\<close>, and returns the encoder's first \<open>n\<close> decompressed values; and the
  prediction state of the decoder is then the very state \<open>snd st_n\<close> of the encoder after
  its first \<open>n\<close> writes: the same \<open>t_\<close> (which is \<open>n\<close>), buffer, residual vector and
  estimator. In that state the slot \<open>(n - 1) mod block_size\<close> of the buffer holds the
  decompressed value of sample \<open>n - 1\<close>.
\<close>

theorem lockstep:
  assumes "coder_inverse C" "coder_consistent C" "0 < block_size cfg" "n \<le> length xs"
    and "length xs < 2 ^ 31"
  shows "\<exists>st_e ds st_n r_n.
     write_all ndebug E C cfg (LpcStream_ctor E C cfg) xs = Some (st_e, ds) \<and>
     write_all ndebug E C cfg (LpcStream_ctor E C cfg) (take n xs) = Some (st_n, take n ds) \<and>
     read_n ndebug E C cfg n (ReverseLpcStream_ctor E C cfg (Code C (fst st_e))) out =
       Some (map (Pair True) (take n ds), (r_n, snd st_n)) \<and>
     t_m (snd st_n) = n \<and>
     (0 < n \<longrightarrow>
        buffer_storage_m (snd st_n) ! (lpc_order cfg + (n - 1) mod block_size cfg) = ds ! (n - 1))"
proof -
  from write_all_consistent[OF assms(2), of ndebug E cfg "LpcStream_ctor E C cfg" xs]
  obtain st_e ds where w: "write_all ndebug E C cfg (LpcStream_ctor E C cfg) xs = Some (st_e, ds)"
    by blast
  have len: "length ds = length xs" using w by (rule write_all_length)
  from decode_of_encode[OF assms(1,2) w assms(4), of out] obtain st_n where
    wn: "write_all ndebug E C cfg (LpcStream_ctor E C cfg) (take n xs) = Some (st_n, take n ds)" and
    rn: "read_n ndebug E C cfg n (ReverseLpcStream_ctor E C cfg (Code C (fst st_e))) out =
        Some (map (Pair True) (take n ds),
              (reverse_skip C n (Reverse_ctor C (Code C (fst st_e))), snd st_n))"
    by auto
  have sz: "sized cfg (snd (LpcStream_ctor E C cfg))"
    by (simp add: LpcStream_ctor_def sized_ctor)
  note inv = write_all_invariant[OF assms(3) wn sz]
  have t0: "t_m (snd (LpcStream_ctor E C cfg)) = 0"
    by (simp add: LpcStream_ctor_def LpcPrediction_ctor_def)
  have t: "t_m (snd st_n) = n" using inv t0 assms(4) by simp
  have slot': "0 < n \<longrightarrow>
      buffer_storage_m (snd st_n) ! (lpc_order cfg + (n - 1) mod block_size cfg) = ds ! (n - 1)"
  proof
    assume "0 < n"
    with assms(4) len have ne: "take n xs \<noteq> []" "take n ds \<noteq> []" by auto
    have l: "last (take n ds) = ds ! (n - 1)"
      using ne(2) assms(4) len \<open>0 < n\<close> by (simp add: last_conv_nth)
    from inv ne(1) have "buffer_storage_m (snd st_n) !
        (lpc_order cfg + (t_m (snd st_n) - 1) mod block_size cfg) = last (take n ds)" by blast
    then show "buffer_storage_m (snd st_n) !
        (lpc_order cfg + (n - 1) mod block_size cfg) = ds ! (n - 1)"
      unfolding t l .
  qed
  show ?thesis
    using w wn rn t slot'
    by (intro exI[of _ st_e] exI[of _ ds] exI[of _ st_n]
          exI[of _ "reverse_skip C n (Reverse_ctor C (Code C (fst st_e)))"])
       (rule conjI | assumption)+
qed


theorem lockstep_witness:
  "coder_inverse C_lossy \<and> coder_consistent C_lossy \<and> 0 < block_size cfg0 \<and>
   5 \<le> length samples_lossy \<and> length samples_lossy < 2 ^ 31 \<and>
   (\<exists>st_e ds st_n r_n.
     write_all False E0 C_lossy cfg0 (LpcStream_ctor E0 C_lossy cfg0) samples_lossy =
       Some (st_e, ds) \<and>
     write_all False E0 C_lossy cfg0 (LpcStream_ctor E0 C_lossy cfg0) (take 5 samples_lossy) =
       Some (st_n, take 5 ds) \<and>
     read_n False E0 C_lossy cfg0 5
         (ReverseLpcStream_ctor E0 C_lossy cfg0 (Code C_lossy (fst st_e))) 7 =
       Some (map (Pair True) (take 5 ds), (r_n, snd st_n)) \<and>
     t_m (snd st_n) = 5 \<and>
     (0 < (5 :: nat) \<longrightarrow>
        buffer_storage_m (snd st_n) ! (lpc_order cfg0 + (5 - 1) mod block_size cfg0) =
          ds ! (5 - 1))) \<and>
   write_all False E0 C_lossy cfg0 (LpcStream_ctor E0 C_lossy cfg0) samples_lossy =
     Some ((code_lossy, s_lossy_eight), [10, 20, 14, 4, 30, 24, 10, 0]) \<and>
   write_all False E0 C_lossy cfg0 (LpcStream_ctor E0 C_lossy cfg0) (take 5 samples_lossy) =
     Some ((take 20 code_lossy, s_lossy_five), [10, 20, 14, 4, 30]) \<and>
   read_n False E0 C_lossy cfg0 5 (ReverseLpcStream_ctor E0 C_lossy cfg0 code_lossy) 7 =
     Some ([(True, 10), (True, 20), (True, 14), (True, 4), (True, 30)],
           (drop 20 code_lossy, s_lossy_five))"
proof -
  have b: "0 < block_size cfg0" by (simp add: cfg0_def)
  have n: "5 \<le> length samples_lossy" by (simp add: samples_lossy_def)
  have l: "length samples_lossy < 2 ^ 31" by (simp add: samples_lossy_def)
  note th = lockstep[OF C_lossy_inverse C_lossy_consistent b n l, of False E0 7]
  have w: "write_all False E0 C_lossy cfg0 (LpcStream_ctor E0 C_lossy cfg0) samples_lossy =
     Some ((code_lossy, s_lossy_eight), [10, 20, 14, 4, 30, 24, 10, 0])"
    by code_simp
  have w5: "write_all False E0 C_lossy cfg0 (LpcStream_ctor E0 C_lossy cfg0)
       (take 5 samples_lossy) =
     Some ((take 20 code_lossy, s_lossy_five), [10, 20, 14, 4, 30])"
    by code_simp
  have r: "read_n False E0 C_lossy cfg0 5
       (ReverseLpcStream_ctor E0 C_lossy cfg0 code_lossy) 7 =
     Some ([(True, 10), (True, 20), (True, 14), (True, 4), (True, 30)],
           (drop 20 code_lossy, s_lossy_five))"
    by code_simp
  show ?thesis
    using C_lossy_inverse C_lossy_consistent b n l th w w5 r
    by - ((rule conjI | assumption)+)
qed




section \<open>Runs of \<^verbatim>\<open>AdvanceLpcState\<close> inside a block and across a block boundary\<close>

lemma AdvanceLpcState_ok:
  assumes "AdvanceLpcState ndebug E cfg s v r = Some s'"
  shows "ndebug \<or> advance_assertion E cfg s v r"
proof (rule ccontr)
  assume "\<not> (ndebug \<or> advance_assertion E cfg s v r)"
  then have "AdvanceLpcState ndebug E cfg s v r = None"
    by (simp add: AdvanceLpcState_abort)
  with assms show False by simp
qed

lemma AdvanceLpcState_parts:
  assumes "sized cfg s" "0 < block_size cfg"
    and "AdvanceLpcState ndebug E cfg s v r = Some s'"
  shows "drop (lpc_order cfg) (buffer_storage_m s') =
           (drop (lpc_order cfg) (buffer_storage_m s))[t_m s mod block_size cfg := v] \<and>
         residual_m s' = (residual_m s)[t_m s mod block_size cfg := r] \<and>
         estimator s' =
           (if t_m s mod block_size cfg = 0 \<and> t_m s \<noteq> 0
            then AcceptBlock E (estimator s)
                   (drop (block_size cfg) (buffer_storage_m s) @
                    drop (lpc_order cfg) (buffer_storage_m s)) (residual_m s)
            else estimator s) \<and>
         take (lpc_order cfg) (buffer_storage_m s') =
           (if t_m s mod block_size cfg = 0 \<and> t_m s \<noteq> 0
            then drop (block_size cfg) (buffer_storage_m s)
            else take (lpc_order cfg) (buffer_storage_m s))"
proof -
  have len: "length (buffer_storage_m s) = lpc_order cfg + block_size cfg"
    using assms(1) by (simp add: sized_def)
  note ok = AdvanceLpcState_ok[OF assms(3)]
  show ?thesis
  proof (cases "t_m s mod block_size cfg = 0 \<and> t_m s \<noteq> 0")
    case True
    then have b: "t_m s mod block_size cfg = 0" "t_m s \<noteq> 0" by simp_all
    from assms(3) AdvanceLpcState_boundary[OF ok len b] have s': "s' =
       \<lparr> t_m = t_m s + 1,
         buffer_storage_m =
           (drop (block_size cfg) (buffer_storage_m s) @ drop (lpc_order cfg) (buffer_storage_m s))
             [lpc_order cfg := v],
         residual_m = (residual_m s)[0 := r],
         estimator = AcceptBlock E (estimator s)
           (drop (block_size cfg) (buffer_storage_m s) @ drop (lpc_order cfg) (buffer_storage_m s))
           (residual_m s) \<rparr>" by simp
    have l: "length (drop (block_size cfg) (buffer_storage_m s)) = lpc_order cfg"
      using len by simp
    show ?thesis
      using True l assms(2) len unfolding s'
      by (simp add: drop_update_swap list_update_append)
  next
    case False
    from assms(3) AdvanceLpcState_inner[OF ok False] have s': "s' =
       \<lparr> t_m = t_m s + 1,
         buffer_storage_m = (buffer_storage_m s)[lpc_order cfg + t_m s mod block_size cfg := v],
         residual_m = (residual_m s)[t_m s mod block_size cfg := r],
         estimator = estimator s \<rparr>" by simp
    show ?thesis
      using False unfolding s' by (auto simp add: drop_update_swap)
  qed
qed

lemma advance_all_append:
  "advance_all ndebug E cfg s (ps @ qs) =
     (case advance_all ndebug E cfg s ps of
        None \<Rightarrow> None
      | Some s1 \<Rightarrow> advance_all ndebug E cfg s1 qs)"
  by (induction ps arbitrary: s) (simp_all split: option.splits)

lemma advance_all_invariant:
  assumes "0 < block_size cfg"
  shows "advance_all ndebug E cfg s ps = Some s' \<Longrightarrow> sized cfg s \<Longrightarrow>
         sized cfg s' \<and> t_m s' = t_m s + length ps"
proof (induction ps arbitrary: s)
  case Nil
  then show ?case by simp
next
  case (Cons p ps)
  from Cons.prems(1) obtain s1 where
    a: "AdvanceLpcState ndebug E cfg s (fst p) (snd p) = Some s1" and
    r: "advance_all ndebug E cfg s1 ps = Some s'"
    by (auto split: option.splits)
  from AdvanceLpcState_step[OF Cons.prems(2) assms a] Cons.IH[OF r] show ?case by simp
qed

lemma mod_next:
  assumes "0 < (B :: nat)" "t mod B + 1 < B"
  shows "(t + 1) mod B = t mod B + 1"
  using assms by (simp add: mod_Suc)

lemma advance_all_within_block:
  assumes "0 < block_size cfg"
  shows "advance_all ndebug E cfg s ps = Some s' \<Longrightarrow> sized cfg s \<Longrightarrow>
         t_m s mod block_size cfg + length ps \<le> block_size cfg \<Longrightarrow>
         t_m s mod block_size cfg \<noteq> 0 \<or> t_m s = 0 \<or> ps = [] \<Longrightarrow>
         estimator s' = estimator s \<and>
         take (lpc_order cfg) (buffer_storage_m s') = take (lpc_order cfg) (buffer_storage_m s)"
proof (induction ps arbitrary: s)
  case Nil
  then show ?case by simp
next
  case (Cons p ps)
  from Cons.prems(1) obtain s1 where
    a: "AdvanceLpcState ndebug E cfg s (fst p) (snd p) = Some s1" and
    r: "advance_all ndebug E cfg s1 ps = Some s'"
    by (auto split: option.splits)
  note step = AdvanceLpcState_step[OF Cons.prems(2) assms a]
  note parts = AdvanceLpcState_parts[OF Cons.prems(2) assms a]
  have nb: "\<not> (t_m s mod block_size cfg = 0 \<and> t_m s \<noteq> 0)" using Cons.prems(4) by auto
  have e1: "estimator s1 = estimator s"
    and c1: "take (lpc_order cfg) (buffer_storage_m s1) = take (lpc_order cfg) (buffer_storage_m s)"
    using parts nb by auto
  have sz1: "sized cfg s1" and t1: "t_m s1 = t_m s + 1" using step by simp_all
  have rest: "estimator s' = estimator s1 \<and>
         take (lpc_order cfg) (buffer_storage_m s') = take (lpc_order cfg) (buffer_storage_m s1)"
  proof (cases ps)
    case Nil
    with r show ?thesis by simp
  next
    case (Cons q qs)
    with Cons.prems(3) have lt: "t_m s mod block_size cfg + 1 < block_size cfg" by simp
    have m1: "t_m s1 mod block_size cfg = t_m s mod block_size cfg + 1"
      unfolding t1 using assms lt by (rule mod_next)
    show ?thesis
      using Cons.prems(3) m1 by (intro Cons.IH[OF r sz1]) simp_all
  qed
  with e1 c1 show ?case by simp
qed

lemma advance_all_fills_block:
  assumes "0 < block_size cfg"
  shows "advance_all ndebug E cfg s ps = Some s' \<Longrightarrow> sized cfg s \<Longrightarrow>
         t_m s mod block_size cfg + length ps \<le> block_size cfg \<Longrightarrow>
         drop (lpc_order cfg) (buffer_storage_m s') =
           take (t_m s mod block_size cfg) (drop (lpc_order cfg) (buffer_storage_m s)) @
           map fst ps @
           drop (t_m s mod block_size cfg + length ps) (drop (lpc_order cfg) (buffer_storage_m s)) \<and>
         residual_m s' =
           take (t_m s mod block_size cfg) (residual_m s) @ map snd ps @
           drop (t_m s mod block_size cfg + length ps) (residual_m s)"
proof (induction ps arbitrary: s)
  case Nil
  then show ?case by (simp del: drop_drop)
next
  case (Cons p ps)
  let ?i = "t_m s mod block_size cfg"
  let ?g = "drop (lpc_order cfg) (buffer_storage_m s)"
  from Cons.prems(1) obtain s1 where
    a: "AdvanceLpcState ndebug E cfg s (fst p) (snd p) = Some s1" and
    r: "advance_all ndebug E cfg s1 ps = Some s'"
    by (auto split: option.splits)
  note step = AdvanceLpcState_step[OF Cons.prems(2) assms a]
  note parts = AdvanceLpcState_parts[OF Cons.prems(2) assms a]
  have g1: "drop (lpc_order cfg) (buffer_storage_m s1) = ?g[?i := fst p]"
    and r1: "residual_m s1 = (residual_m s)[?i := snd p]"
    using parts by simp_all
  have sz1: "sized cfg s1" and t1: "t_m s1 = t_m s + 1" using step by simp_all
  have lg: "length ?g = block_size cfg" and lr: "length (residual_m s) = block_size cfg"
    using Cons.prems(2) by (simp_all add: sized_def)
  have i: "?i < block_size cfg" using assms by simp
  show ?case
  proof (cases ps)
    case Nil
    with r have "s' = s1" by simp
    with g1 r1 Nil i lg lr show ?thesis
      by (simp add: upd_conv_take_nth_drop)
  next
    case (Cons q qs)
    with Cons.prems(3) have lt: "?i + 1 < block_size cfg" by simp
    have m1: "t_m s1 mod block_size cfg = ?i + 1"
      unfolding t1 using assms lt by (rule mod_next)
    have le: "t_m s1 mod block_size cfg + length ps \<le> block_size cfg"
      using Cons.prems(3) m1 by simp
    from Cons.IH[OF r sz1 le] have
      "drop (lpc_order cfg) (buffer_storage_m s') =
         take (?i + 1) (?g[?i := fst p]) @ map fst ps @ drop (?i + 1 + length ps) (?g[?i := fst p])"
      "residual_m s' =
         take (?i + 1) ((residual_m s)[?i := snd p]) @ map snd ps @
         drop (?i + 1 + length ps) ((residual_m s)[?i := snd p])"
      unfolding m1 g1 r1 by simp_all
    then show ?thesis
      using i lg lr by (simp add: take_Suc_conv_app_nth)
  qed
qed

lemma write_all_as_advance:
  "write_all ndebug E C cfg st xs = Some (st', ds) \<Longrightarrow>
   \<exists>ps. length ps = length xs \<and> map fst ps = ds \<and>
        advance_all ndebug E cfg (snd st) ps = Some (snd st')"
proof (induction xs arbitrary: st ds)
  case Nil
  then show ?case by simp
next
  case (Cons x xs)
  from Cons.prems obtain st1 d ds1 where
    w: "Write ndebug E C cfg st x = Some (st1, d)" and
    r: "write_all ndebug E C cfg st1 xs = Some (st', ds1)" and ds: "ds = d # ds1"
    by (auto split: option.splits)
  from Write_advances[OF w] obtain dr where
    adv: "AdvanceLpcState ndebug E cfg (snd st) d dr = Some (snd st1)" by blast
  from Cons.IH[OF r] obtain ps where
    ps: "length ps = length xs" "map fst ps = ds1"
        "advance_all ndebug E cfg (snd st1) ps = Some (snd st')" by blast
  show ?case
    using ps adv ds by (intro exI[of _ "(d, dr) # ps"]) simp
qed

lemma Read_state:
  assumes "Read ndebug E C cfg st out = Some (ok, out', st')"
  shows "if ok then \<exists>residual. AdvanceLpcState ndebug E cfg (snd st) out' residual = Some (snd st')
         else snd st' = snd st"
  using assms
  by (auto simp add: Read_def Let_def split: prod.splits option.splits if_splits)

lemma Read_advances:
  assumes "Read ndebug E C cfg st out = Some (ok, out', st')"
  shows "\<exists>ps. length ps \<le> 1 \<and> advance_all ndebug E cfg (snd st) ps = Some (snd st')"
proof (cases ok)
  case True
  with Read_state[OF assms] obtain residual where
    "AdvanceLpcState ndebug E cfg (snd st) out' residual = Some (snd st')" by auto
  then show ?thesis by (intro exI[of _ "[(out', residual)]"]) simp
next
  case False
  with Read_state[OF assms] have "snd st' = snd st" by simp
  then show ?thesis by (intro exI[of _ "[]"]) simp
qed

lemma read_n_as_advance:
  "read_n ndebug E C cfg n st out = Some (rs, st') \<Longrightarrow>
   \<exists>ps. length ps \<le> n \<and> advance_all ndebug E cfg (snd st) ps = Some (snd st')"
proof (induction n arbitrary: st out rs)
  case 0
  then show ?case by simp
next
  case (Suc n)
  from Suc.prems obtain ok out1 st1 rs1 where
    rd: "Read ndebug E C cfg st out = Some (ok, out1, st1)" and
    r: "read_n ndebug E C cfg n st1 out1 = Some (rs1, st')"
    by (auto split: option.splits prod.splits)
  from Read_advances[OF rd] obtain ps where
    ps: "length ps \<le> 1" "advance_all ndebug E cfg (snd st) ps = Some (snd st1)" by blast
  from Suc.IH[OF r] obtain qs where
    qs: "length qs \<le> n" "advance_all ndebug E cfg (snd st1) qs = Some (snd st')" by blast
  show ?case
    using ps qs by (intro exI[of _ "ps @ qs"]) (simp add: advance_all_append)
qed

lemma first_block_state:
  assumes "0 < block_size cfg"
    and "advance_all ndebug E cfg (LpcPrediction_ctor E cfg) ps = Some s"
    and "length ps \<le> block_size cfg"
  shows "estimator s = Estimator_ctor E cfg \<and>
         take (lpc_order cfg) (buffer_storage_m s) = replicate (lpc_order cfg) 0 \<and>
         t_m s = length ps"
proof -
  have t0: "t_m (LpcPrediction_ctor E cfg) = 0" by (simp add: LpcPrediction_ctor_def)
  have "estimator s = estimator (LpcPrediction_ctor E cfg) \<and>
        take (lpc_order cfg) (buffer_storage_m s) =
          take (lpc_order cfg) (buffer_storage_m (LpcPrediction_ctor E cfg))"
    using assms(3) t0 by (intro advance_all_within_block[OF assms(1,2) sized_ctor]) simp_all
  moreover have "t_m s = length ps"
    using advance_all_invariant[OF assms(1,2) sized_ctor] t0 by simp
  ultimately show ?thesis by (simp add: LpcPrediction_ctor_def)
qed


text \<open>
  C10. Initial state. A fresh \<^verbatim>\<open>LpcPrediction\<close> has \<open>t_ = 0\<close> and all
  \<open>lpc_order + block_size\<close> buffer slots zero; \<^verbatim>\<open>LpcStream\<close> and \<^verbatim>\<open>ReverseLpcStream\<close>
  both start from it, so the first prediction of a stream is
  \<^verbatim>\<open>compute_lpc_prediction\<close> on the all-zero buffer with the constructor's coefficients
  on either side. While fewer than \<open>block_size\<close> samples have been written, or fewer than
  \<open>block_size\<close> reads have been made on any code, the \<open>lpc_order\<close> left-context slots are
  still all zero and the estimator is still the constructor's: every prediction in the
  first block is computed over an all-zero left context on both sides.
\<close>

theorem initial_state_and_first_block:
  assumes "0 < block_size cfg"
    and "write_all ndebug E C cfg (LpcStream_ctor E C cfg) xs = Some (st_e, ds)"
    and "length xs < block_size cfg"
    and "read_n ndebug E C cfg n (ReverseLpcStream_ctor E C cfg code) out = Some (rs, st_d)"
    and "n < block_size cfg"
  shows "t_m (LpcPrediction_ctor E cfg) = 0 \<and>
         buffer_storage_m (LpcPrediction_ctor E cfg) =
           replicate (lpc_order cfg + block_size cfg) 0 \<and>
         snd (LpcStream_ctor E C cfg) = LpcPrediction_ctor E cfg \<and>
         snd (ReverseLpcStream_ctor E C cfg code) = LpcPrediction_ctor E cfg \<and>
         GetPrediction E cfg (LpcPrediction_ctor E cfg) =
           compute_lpc_prediction E (replicate (lpc_order cfg + block_size cfg) 0)
             (lpc_order cfg) (GetLpcCoeffs E (Estimator_ctor E cfg)) \<and>
         take (lpc_order cfg) (buffer_storage_m (snd st_e)) = replicate (lpc_order cfg) 0 \<and>
         estimator (snd st_e) = Estimator_ctor E cfg \<and>
         take (lpc_order cfg) (buffer_storage_m (snd st_d)) = replicate (lpc_order cfg) 0 \<and>
         estimator (snd st_d) = Estimator_ctor E cfg"
proof -
  from write_all_as_advance[OF assms(2)] obtain ps where
    ps: "length ps = length xs"
        "advance_all ndebug E cfg (LpcPrediction_ctor E cfg) ps = Some (snd st_e)"
    by (auto simp add: LpcStream_ctor_def)
  from read_n_as_advance[OF assms(4)] obtain qs where
    qs: "length qs \<le> n"
        "advance_all ndebug E cfg (LpcPrediction_ctor E cfg) qs = Some (snd st_d)"
    by (auto simp add: ReverseLpcStream_ctor_def)
  have e: "estimator (snd st_e) = Estimator_ctor E cfg \<and>
         take (lpc_order cfg) (buffer_storage_m (snd st_e)) = replicate (lpc_order cfg) 0 \<and>
         t_m (snd st_e) = length ps"
    using ps(1) assms(3) by (intro first_block_state[OF assms(1) ps(2)]) simp
  have d: "estimator (snd st_d) = Estimator_ctor E cfg \<and>
         take (lpc_order cfg) (buffer_storage_m (snd st_d)) = replicate (lpc_order cfg) 0 \<and>
         t_m (snd st_d) = length qs"
    using qs(1) assms(5) by (intro first_block_state[OF assms(1) qs(2)]) simp
  from e d show ?thesis
    by (simp add: LpcPrediction_ctor_def LpcStream_ctor_def ReverseLpcStream_ctor_def
          GetPrediction_def)
qed


theorem initial_state_and_first_block_witness:
  "0 < block_size cfg0 \<and>
   write_all False E0 C0 cfg0 (LpcStream_ctor E0 C0 cfg0) [10, 20, 15] =
     Some (([10, 0, 0, 0, 20, 0, 0, 0, 15, 0, 0, 0], s_three_written), [10, 20, 15]) \<and>
   length [10, 20, 15 :: int16] < block_size cfg0 \<and>
   read_n False E0 C0 cfg0 3 (ReverseLpcStream_ctor E0 C0 cfg0 [5, 0, 0, 0, 6, 0, 0, 0]) 0 =
     Some ([(True, 5), (True, 6), (False, 6)], ([], s_two_read)) \<and>
   3 < block_size cfg0 \<and>
   take (lpc_order cfg0) (buffer_storage_m s_three_written) = replicate (lpc_order cfg0) 0 \<and>
   estimator s_three_written = Estimator_ctor E0 cfg0 \<and>
   take (lpc_order cfg0) (buffer_storage_m s_two_read) = replicate (lpc_order cfg0) 0 \<and>
   estimator s_two_read = Estimator_ctor E0 cfg0"
proof -
  have b: "0 < block_size cfg0" by (simp add: cfg0_def)
  have w: "write_all False E0 C0 cfg0 (LpcStream_ctor E0 C0 cfg0) [10, 20, 15] =
     Some (([10, 0, 0, 0, 20, 0, 0, 0, 15, 0, 0, 0], s_three_written), [10, 20, 15])"
    by code_simp
  have l: "length [10, 20, 15 :: int16] < block_size cfg0" by (simp add: cfg0_def)
  have r: "read_n False E0 C0 cfg0 3
      (ReverseLpcStream_ctor E0 C0 cfg0 [5, 0, 0, 0, 6, 0, 0, 0]) 0 =
     Some ([(True, 5), (True, 6), (False, 6)], ([], s_two_read))"
    by code_simp
  have n: "3 < block_size cfg0" by (simp add: cfg0_def)
  from initial_state_and_first_block[OF b w l r n] b w l r n show ?thesis by simp
qed

lemma take_drop_block:
  assumes "length ps = (k + 1) * B + j"
  shows "ps = take (k * B) ps @ drop (k * B) (take ((k + 1) * B) ps) @ drop ((k + 1) * B) ps"
    and "length (take (k * B) ps) = k * B"
    and "length (drop (k * B) (take ((k + 1) * B) ps)) = B"
    and "length (drop ((k + 1) * B) ps) = j"
proof -
  let ?m = "(k + 1) * B"
  have a: "take ?m ps = take (k * B) (take ?m ps) @ drop (k * B) (take ?m ps)"
    by (rule append_take_drop_id[symmetric])
  have b: "take (k * B) (take ?m ps) = take (k * B) ps"
    by (simp add: min_def)
  have c: "ps = take ?m ps @ drop ?m ps"
    by (rule append_take_drop_id[symmetric])
  have "ps = (take (k * B) ps @ drop (k * B) (take ?m ps)) @ drop ?m ps"
    using a[unfolded b] c by argo
  then show "ps = take (k * B) ps @ drop (k * B) (take ((k + 1) * B) ps) @ drop ((k + 1) * B) ps"
    by (simp only: append_assoc)
  show "length (take (k * B) ps) = k * B" using assms by simp
  show "length (drop (k * B) (take ((k + 1) * B) ps)) = B" using assms by simp
  show "length (drop ((k + 1) * B) ps) = j" using assms by simp
qed

lemma advance_all_split:
  assumes "advance_all ndebug E cfg s (ps @ qs) = Some s'"
  obtains s1 where "advance_all ndebug E cfg s ps = Some s1"
    and "advance_all ndebug E cfg s1 qs = Some s'"
  using assms by (auto simp add: advance_all_append split: option.splits)

lemma after_block_boundary:
  assumes B: "0 < block_size cfg"
    and run: "advance_all ndebug E cfg (LpcPrediction_ctor E cfg) ps = Some s"
    and len: "length ps = (k + 1) * block_size cfg + j" and j: "1 \<le> j" "j \<le> block_size cfg"
  shows "\<exists>s_k.
     advance_all ndebug E cfg (LpcPrediction_ctor E cfg) (take ((k + 1) * block_size cfg) ps) =
       Some s_k \<and>
     drop (lpc_order cfg) (buffer_storage_m s_k) =
       map fst (drop (k * block_size cfg) (take ((k + 1) * block_size cfg) ps)) \<and>
     residual_m s_k =
       map snd (drop (k * block_size cfg) (take ((k + 1) * block_size cfg) ps)) \<and>
     estimator s =
       AcceptBlock E (estimator s_k)
         (drop (block_size cfg) (buffer_storage_m s_k) @
          drop (lpc_order cfg) (buffer_storage_m s_k))
         (residual_m s_k) \<and>
     take (lpc_order cfg) (buffer_storage_m s) = drop (block_size cfg) (buffer_storage_m s_k)"
proof -
  let ?B = "block_size cfg"
  let ?s0 = "LpcPrediction_ctor E cfg"
  let ?ps1 = "take (k * ?B) ps"
  let ?blk = "drop (k * ?B) (take ((k + 1) * ?B) ps)"
  let ?q = "drop ((k + 1) * ?B) ps"
  note sp = take_drop_block[OF len]
  have t0: "t_m ?s0 = 0" by (simp add: LpcPrediction_ctor_def)
  from run sp(1) have "advance_all ndebug E cfg ?s0 (?ps1 @ ?blk @ ?q) = Some s" by simp
  then obtain s_a where
    ra: "advance_all ndebug E cfg ?s0 ?ps1 = Some s_a" and
    rest: "advance_all ndebug E cfg s_a (?blk @ ?q) = Some s"
    by (rule advance_all_split)
  from rest obtain s_k where
    rk: "advance_all ndebug E cfg s_a ?blk = Some s_k" and
    rq: "advance_all ndebug E cfg s_k ?q = Some s"
    by (rule advance_all_split)
  have pre: "take ((k + 1) * ?B) ps = ?ps1 @ ?blk"
  proof -
    have "take ((k + 1) * ?B) ps =
        take (k * ?B) (take ((k + 1) * ?B) ps) @ drop (k * ?B) (take ((k + 1) * ?B) ps)"
      by (rule append_take_drop_id[symmetric])
    moreover have "take (k * ?B) (take ((k + 1) * ?B) ps) = take (k * ?B) ps"
      by (simp add: min_def)
    ultimately show ?thesis by simp
  qed
  have runk: "advance_all ndebug E cfg ?s0 (take ((k + 1) * ?B) ps) = Some s_k"
  proof -
    have "advance_all ndebug E cfg ?s0 (?ps1 @ ?blk) = Some s_k"
      by (simp only: advance_all_append ra rk option.simps)
    then show ?thesis by (simp only: pre[symmetric])
  qed
  from advance_all_invariant[OF B ra sized_ctor] sp(2) t0 have
    sza: "sized cfg s_a" and ta: "t_m s_a = k * ?B" by simp_all
  from advance_all_invariant[OF B rk sza] sp(3) ta have
    szk: "sized cfg s_k" and tk: "t_m s_k = (k + 1) * ?B" by simp_all
  have la: "length (drop (lpc_order cfg) (buffer_storage_m s_a)) = ?B"
    and lra: "length (residual_m s_a) = ?B"
    using sza by (simp_all add: sized_def)
  have ma: "t_m s_a mod ?B = 0" by (simp add: ta)
  have fill: "drop (lpc_order cfg) (buffer_storage_m s_k) = map fst ?blk \<and>
              residual_m s_k = map snd ?blk"
    using advance_all_fills_block[OF B rk sza] sp(3) la lra unfolding ma
    by (simp del: drop_drop)
  from j sp(4) obtain p q' where q: "?q = p # q'" by (cases ?q) auto
  from rq[unfolded q] obtain s_b where
    ab: "AdvanceLpcState ndebug E cfg s_k (fst p) (snd p) = Some s_b" and
    rb: "advance_all ndebug E cfg s_b q' = Some s"
    by (auto split: option.splits)
  have bnd: "t_m s_k mod ?B = 0 \<and> t_m s_k \<noteq> 0" using tk B by simp
  from AdvanceLpcState_parts[OF szk B ab] bnd have eb:
    "estimator s_b = AcceptBlock E (estimator s_k)
         (drop ?B (buffer_storage_m s_k) @ drop (lpc_order cfg) (buffer_storage_m s_k))
         (residual_m s_k)"
    and cb: "take (lpc_order cfg) (buffer_storage_m s_b) = drop ?B (buffer_storage_m s_k)"
    by simp_all
  from AdvanceLpcState_step[OF szk B ab] tk have
    szb: "sized cfg s_b" and tb: "t_m s_b = (k + 1) * ?B + 1" by simp_all
  have lq: "length q' + 1 = j"
  proof -
    have "length ?q = length (p # q')" by (simp only: q)
    with sp(4) show ?thesis by simp
  qed
  have "estimator s = estimator s_b \<and>
        take (lpc_order cfg) (buffer_storage_m s) = take (lpc_order cfg) (buffer_storage_m s_b)"
  proof (cases q')
    case Nil
    with rb show ?thesis by simp
  next
    case (Cons a as)
    with lq j have B2: "1 < ?B" by simp
    have "((k + 1) * ?B + 1) mod ?B = ((k + 1) * ?B) mod ?B + 1"
      using B2 by (intro mod_next[OF B]) simp
    then have mb: "t_m s_b mod ?B = 1" unfolding tb by simp
    have "estimator s = estimator s_b \<and>
          take (lpc_order cfg) (buffer_storage_m s) = take (lpc_order cfg) (buffer_storage_m s_b)"
      using mb lq j by (intro advance_all_within_block[OF B rb szb]) simp_all
    then show ?thesis .
  qed
  with eb cb fill runk show ?thesis by simp
qed

lemma estimate_in_use:
  assumes B: "0 < block_size cfg"
    and run: "advance_all ndebug E cfg (LpcPrediction_ctor E cfg) ps = Some s"
    and len: "length ps = (k + 1) * block_size cfg + j" and j: "1 \<le> j" "j \<le> block_size cfg"
  shows "\<exists>s_k.
     advance_all ndebug E cfg (LpcPrediction_ctor E cfg) (take ((k + 1) * block_size cfg) ps) =
       Some s_k \<and>
     drop (lpc_order cfg) (buffer_storage_m s_k) =
       map fst (drop (k * block_size cfg) (take ((k + 1) * block_size cfg) ps)) \<and>
     residual_m s_k =
       map snd (drop (k * block_size cfg) (take ((k + 1) * block_size cfg) ps)) \<and>
     estimator s =
       AcceptBlock E (estimator s_k)
         (drop (block_size cfg) (buffer_storage_m s_k) @
          drop (lpc_order cfg) (buffer_storage_m s_k))
         (residual_m s_k)"
  using after_block_boundary[OF assms] by blast


text \<open>
  C4. The specification has the vector estimated from block \<open>k\<close> in use for every sample of
  block \<open>k + 1\<close>. \<^verbatim>\<open>AcceptBlock\<close> is called inside \<^verbatim>\<open>AdvanceLpcState\<close>, when the first
  sample of the next block is advanced, and \<^verbatim>\<open>Write\<close> and \<^verbatim>\<open>Read\<close> call
  \<^verbatim>\<open>GetPrediction\<close> before that. With order 2 and block size 4, after the four samples
  10, 20, 15, 5 of block 0 the vector estimated from block 0 is \<open>[1, 1]\<close>, but the
  prediction for the first sample of block 1 is made in the state \<open>s_block0\<close>, whose
  coefficients are still the initial \<open>[0, 0]\<close>.
\<close>

theorem first_sample_predicted_with_previous_vector:
  "write_all False E0 C0 cfg0 (LpcStream_ctor E0 C0 cfg0) [10, 20, 15, 5] =
     Some (([10, 0, 0, 0, 20, 0, 0, 0, 15, 0, 0, 0, 5, 0, 0, 0], s_block0), [10, 20, 15, 5]) \<and>
   advance_all False E0 cfg0 (LpcPrediction_ctor E0 cfg0) pairs_block0 = Some s_block0 \<and>
   AcceptBlock E0 (estimator s_block0)
     (drop (block_size cfg0) (buffer_storage_m s_block0) @
      drop (lpc_order cfg0) (buffer_storage_m s_block0))
     (residual_m s_block0) = [1, 1] \<and>
   GetLpcCoeffs E0 (estimator s_block0) = [0, 0] \<and>
   GetPrediction E0 cfg0 s_block0 = 0"
  by code_simp

text \<open>
  C4, as amended. Let \<open>block_size\<close> be positive and let \<open>s\<close> be the state after the pairs
  \<open>ps\<close>, fewer than \<open>2^31\<close> of them (so that the \<^verbatim>\<open>int\<close> counter \<^verbatim>\<open>t_\<close> does not
  overflow), have been advanced from the constructor's state, so that \<open>estimator s\<close> holds
  the vector \<^verbatim>\<open>GetPrediction\<close> uses at position \<open>length ps\<close>.
  \<^item> At the positions \<open>0, \<dots>, block_size\<close> it is the constructor's vector.
  \<^item> At the positions \<open>(k + 1) * block_size + j\<close> with \<open>1 \<le> j \<le> block_size\<close>, that is for
    every sample of block \<open>k + 1\<close> but the first and for the first sample of block
    \<open>k + 2\<close>, it is the result of \<^verbatim>\<open>AcceptBlock\<close> on the state \<open>s_k\<close> reached at the end of
    block \<open>k\<close>, whose buffer holds the values of block \<open>k\<close> and whose residual vector holds
    the residuals of block \<open>k\<close>. So no sample of block \<open>k\<close> is predicted with it.
  \<^item> The prediction at any position \<open>m\<close>, in particular at the first sample of a block,
    is the same for two runs that agree before \<open>m\<close>: it is unaffected by the samples from
    \<open>m\<close> on.
\<close>

theorem coefficient_lag:
  assumes "0 < block_size cfg"
    and "advance_all ndebug E cfg (LpcPrediction_ctor E cfg) ps = Some s"
    and "length ps < 2 ^ 31"
  shows "(length ps \<le> block_size cfg \<longrightarrow> estimator s = Estimator_ctor E cfg) \<and>
         (\<forall>k j. length ps = (k + 1) * block_size cfg + j \<and> 1 \<le> j \<and> j \<le> block_size cfg \<longrightarrow>
            (\<exists>s_k.
               advance_all ndebug E cfg (LpcPrediction_ctor E cfg)
                   (take ((k + 1) * block_size cfg) ps) = Some s_k \<and>
               drop (lpc_order cfg) (buffer_storage_m s_k) =
                 map fst (drop (k * block_size cfg) (take ((k + 1) * block_size cfg) ps)) \<and>
               residual_m s_k =
                 map snd (drop (k * block_size cfg) (take ((k + 1) * block_size cfg) ps)) \<and>
               estimator s =
                 AcceptBlock E (estimator s_k)
                   (drop (block_size cfg) (buffer_storage_m s_k) @
                    drop (lpc_order cfg) (buffer_storage_m s_k))
                   (residual_m s_k))) \<and>
         (\<forall>m ps' s1 s1'.
            take m ps' = take m ps \<and>
            advance_all ndebug E cfg (LpcPrediction_ctor E cfg) (take m ps) = Some s1 \<and>
            advance_all ndebug E cfg (LpcPrediction_ctor E cfg) (take m ps') = Some s1' \<longrightarrow>
            GetPrediction E cfg s1' = GetPrediction E cfg s1)"
proof (intro conjI impI allI)
  assume "length ps \<le> block_size cfg"
  with first_block_state[OF assms(1,2)] show "estimator s = Estimator_ctor E cfg" by simp
next
  fix k j
  assume "length ps = (k + 1) * block_size cfg + j \<and> 1 \<le> j \<and> j \<le> block_size cfg"
  then have l: "length ps = (k + 1) * block_size cfg + j" and j: "1 \<le> j" "j \<le> block_size cfg"
    by simp_all
  show "\<exists>s_k.
               advance_all ndebug E cfg (LpcPrediction_ctor E cfg)
                   (take ((k + 1) * block_size cfg) ps) = Some s_k \<and>
               drop (lpc_order cfg) (buffer_storage_m s_k) =
                 map fst (drop (k * block_size cfg) (take ((k + 1) * block_size cfg) ps)) \<and>
               residual_m s_k =
                 map snd (drop (k * block_size cfg) (take ((k + 1) * block_size cfg) ps)) \<and>
               estimator s =
                 AcceptBlock E (estimator s_k)
                   (drop (block_size cfg) (buffer_storage_m s_k) @
                    drop (lpc_order cfg) (buffer_storage_m s_k))
                   (residual_m s_k)"
    by (rule estimate_in_use[OF assms(1,2) l j])
next
  fix m ps' s1 s1'
  assume "take m ps' = take m ps \<and>
            advance_all ndebug E cfg (LpcPrediction_ctor E cfg) (take m ps) = Some s1 \<and>
            advance_all ndebug E cfg (LpcPrediction_ctor E cfg) (take m ps') = Some s1'"
  then have "Some s1' = Some s1" by metis
  then show "GetPrediction E cfg s1' = GetPrediction E cfg s1" by simp
qed

theorem coefficient_lag_witness:
  "0 < block_size cfg0 \<and>
   advance_all False E0 cfg0 (LpcPrediction_ctor E0 cfg0) pairs6 = Some s6 \<and>
   length pairs6 < 2 ^ 31 \<and>
   length pairs6 = (0 + 1) * block_size cfg0 + 2 \<and>
   (\<exists>s_k.
      advance_all False E0 cfg0 (LpcPrediction_ctor E0 cfg0)
          (take ((0 + 1) * block_size cfg0) pairs6) = Some s_k \<and>
      drop (lpc_order cfg0) (buffer_storage_m s_k) =
        map fst (drop (0 * block_size cfg0) (take ((0 + 1) * block_size cfg0) pairs6)) \<and>
      residual_m s_k =
        map snd (drop (0 * block_size cfg0) (take ((0 + 1) * block_size cfg0) pairs6)) \<and>
      estimator s6 =
        AcceptBlock E0 (estimator s_k)
          (drop (block_size cfg0) (buffer_storage_m s_k) @
           drop (lpc_order cfg0) (buffer_storage_m s_k))
          (residual_m s_k)) \<and>
   estimator s6 = [1, 1]"
proof -
  have b: "0 < block_size cfg0" by (simp add: cfg0_def)
  have run: "advance_all False E0 cfg0 (LpcPrediction_ctor E0 cfg0) pairs6 = Some s6"
    by code_simp
  have len: "length pairs6 = (0 + 1) * block_size cfg0 + 2 \<and> (1 :: nat) \<le> 2 \<and>
             2 \<le> block_size cfg0"
    by (simp add: pairs6_def cfg0_def)
  have e: "estimator s6 = [1, 1]" by (simp add: s6_def)
  have lt: "length pairs6 < 2 ^ 31" by (simp add: pairs6_def)
  note th = coefficient_lag[OF b run lt]
  from th have "\<forall>k j. length pairs6 = (k + 1) * block_size cfg0 + j \<and> 1 \<le> j \<and>
        j \<le> block_size cfg0 \<longrightarrow>
      (\<exists>s_k.
         advance_all False E0 cfg0 (LpcPrediction_ctor E0 cfg0)
             (take ((k + 1) * block_size cfg0) pairs6) = Some s_k \<and>
         drop (lpc_order cfg0) (buffer_storage_m s_k) =
           map fst (drop (k * block_size cfg0) (take ((k + 1) * block_size cfg0) pairs6)) \<and>
         residual_m s_k =
           map snd (drop (k * block_size cfg0) (take ((k + 1) * block_size cfg0) pairs6)) \<and>
         estimator s6 =
           AcceptBlock E0 (estimator s_k)
             (drop (block_size cfg0) (buffer_storage_m s_k) @
              drop (lpc_order cfg0) (buffer_storage_m s_k))
             (residual_m s_k))"
    by blast
  from this[rule_format, of 0 2, OF len] b run lt len e show ?thesis by blast
qed

text \<open>
  X1. The left context at the first sample of a block. Let \<open>lpc_order \<le> block_size\<close>, and
  let fewer than \<open>2^31\<close> pairs have been advanced. In
  the state in which \<^verbatim>\<open>GetPrediction\<close> is evaluated for position \<open>(k + 2) * block_size\<close>,
  the first sample of block \<open>k + 2\<close>, the read position is \<^verbatim>\<open>buffer_start_\<close> itself and the
  \<open>lpc_order\<close> slots before it hold the values of the positions
  \<open>(k + 1) * block_size - lpc_order, \<dots>, (k + 1) * block_size - 1\<close>, the trailing samples of
  block \<open>k\<close>: the copy of the trailing samples of block \<open>k + 1\<close> into those slots is made
  only afterwards, inside \<^verbatim>\<open>AdvanceLpcState\<close>.
\<close>

theorem left_context_one_block_old:
  assumes "0 < block_size cfg" and "lpc_order cfg \<le> block_size cfg"
    and "advance_all ndebug E cfg (LpcPrediction_ctor E cfg) ps = Some s"
    and "length ps = (k + 2) * block_size cfg" and "length ps < 2 ^ 31"
  shows "GetPrediction E cfg s =
           compute_lpc_prediction E (buffer_storage_m s) (lpc_order cfg)
             (GetLpcCoeffs E (estimator s)) \<and>
         take (lpc_order cfg) (buffer_storage_m s) =
           map fst (drop ((k + 1) * block_size cfg - lpc_order cfg)
                      (take ((k + 1) * block_size cfg) ps))"
proof -
  let ?B = "block_size cfg" and ?n = "lpc_order cfg"
  have len: "length ps = (k + 1) * ?B + ?B" using assms(4) by simp
  have j: "1 \<le> ?B" "?B \<le> ?B" using assms(1) by simp_all
  from after_block_boundary[OF assms(1,3) len j] obtain s_k where
    rk: "advance_all ndebug E cfg (LpcPrediction_ctor E cfg) (take ((k + 1) * ?B) ps) = Some s_k" and
    blk: "drop ?n (buffer_storage_m s_k) = map fst (drop (k * ?B) (take ((k + 1) * ?B) ps))" and
    ctx: "take ?n (buffer_storage_m s) = drop ?B (buffer_storage_m s_k)"
    by blast
  have t: "t_m s = length ps"
    using advance_all_invariant[OF assms(1,3) sized_ctor]
    by (simp add: LpcPrediction_ctor_def)
  have "t_m s mod ?B = 0" unfolding t assms(4) by simp
  then have p: "GetPrediction E cfg s =
      compute_lpc_prediction E (buffer_storage_m s) ?n (GetLpcCoeffs E (estimator s))"
    by (simp add: GetPrediction_def)
  have "drop ?B (buffer_storage_m s_k) = drop (?B - ?n) (drop ?n (buffer_storage_m s_k))"
    using assms(2) by simp
  also have "\<dots> = map fst (drop (?B - ?n) (drop (k * ?B) (take ((k + 1) * ?B) ps)))"
    unfolding blk by (simp only: drop_map)
  also have "drop (?B - ?n) (drop (k * ?B) (take ((k + 1) * ?B) ps)) =
      drop ((k + 1) * ?B - ?n) (take ((k + 1) * ?B) ps)"
  proof -
    have "(?B - ?n) + k * ?B = (k + 1) * ?B - ?n" using assms(2) by simp
    then show ?thesis by (simp only: drop_drop)
  qed
  finally show ?thesis using p ctx by simp
qed


theorem left_context_one_block_old_witness:
  "0 < block_size cfg0 \<and> lpc_order cfg0 \<le> block_size cfg0 \<and>
   advance_all False E0 cfg0 (LpcPrediction_ctor E0 cfg0) pairs8 = Some s_eight \<and>
   length pairs8 = (0 + 2) * block_size cfg0 \<and> length pairs8 < 2 ^ 31 \<and>
   take (lpc_order cfg0) (buffer_storage_m s_eight) = [15, 5] \<and>
   map fst (drop 6 pairs8) = [10, 0] \<and>
   GetPrediction E0 cfg0 s_eight = 20"
proof -
  have b: "0 < block_size cfg0" and o: "lpc_order cfg0 \<le> block_size cfg0"
    by (simp_all add: cfg0_def)
  have run: "advance_all False E0 cfg0 (LpcPrediction_ctor E0 cfg0) pairs8 = Some s_eight"
    by code_simp
  have len: "length pairs8 = (0 + 2) * block_size cfg0"
    by (simp add: pairs8_def cfg0_def)
  have ev: "map fst (drop ((0 + 1) * block_size cfg0 - lpc_order cfg0)
                      (take ((0 + 1) * block_size cfg0) pairs8)) = [15, 5] \<and>
            map fst (drop 6 pairs8) = [10, 0] \<and>
            compute_lpc_prediction E0 (buffer_storage_m s_eight) (lpc_order cfg0)
              (GetLpcCoeffs E0 (estimator s_eight)) = 20"
    by code_simp
  have lt: "length pairs8 < 2 ^ 31" by (simp add: pairs8_def)
  from left_context_one_block_old[OF b o run len lt] ev b o run len lt show ?thesis by simp
qed

end
